theory Spec2Isabelle
  imports Main
begin

section \<open>Strings and character classes\<close>

text \<open>
  Python's \<open>str\<close> is modelled as \<open>string\<close>, a list of 8-bit characters: the Latin-1 range
  of Python's code points. In that range the regular expression class \<open>\d\<close> matches the
  ten ASCII digits only and \<open>\s\<close> matches the code points 9-13, 28-32, 133 and 160.
\<close>

text \<open>A character class \<open>[lo-hi]\<close>, by code point.\<close>

definition in_range :: "char \<Rightarrow> char \<Rightarrow> char \<Rightarrow> bool" where
  "in_range lo hi c \<longleftrightarrow> (of_char lo :: nat) \<le> of_char c \<and> (of_char c :: nat) \<le> of_char hi"

definition is_digit :: "char \<Rightarrow> bool" where
  "is_digit c \<longleftrightarrow> in_range CHR ''0'' CHR ''9'' c"

definition is_space :: "char \<Rightarrow> bool" where
  "is_space c \<longleftrightarrow> (of_char c :: nat) \<in> set [9, 10, 11, 12, 13, 28, 29, 30, 31, 32, 133, 160]"

definition digit_val :: "char \<Rightarrow> nat" where
  "digit_val c = (of_char c :: nat) - 48"

section \<open>Phase 2: type inference (\<open>infer_type\<close>)\<close>

subsection \<open>The two number patterns\<close>

text \<open>\<open>[-+]?\<close>: an optional leading sign.\<close>

definition strip_sign :: "string \<Rightarrow> string" where
  "strip_sign v =
     (case v of [] \<Rightarrow> [] | c # cs \<Rightarrow> if c = CHR ''-'' \<or> c = CHR ''+'' then cs else v)"

text \<open>\<open>\d+\<close> over a whole string.\<close>

definition all_digits :: "string \<Rightarrow> bool" where
  "all_digits s \<longleftrightarrow> s \<noteq> [] \<and> list_all is_digit s"

text \<open>\<open>re.fullmatch(r"[-+]?\d+", v)\<close>\<close>

definition match_int :: "string \<Rightarrow> bool" where
  "match_int v \<longleftrightarrow> all_digits (strip_sign v)"

text \<open>\<open>re.fullmatch(r"[-+]?\d+(\.\d+)?", v)\<close>\<close>

definition match_num :: "string \<Rightarrow> bool" where
  "match_num v \<longleftrightarrow>
     (let s = strip_sign v; whole = takeWhile is_digit s; rest = dropWhile is_digit s
      in whole \<noteq> [] \<and>
         (case rest of [] \<Rightarrow> True | c # frac \<Rightarrow> c = CHR ''.'' \<and> all_digits frac))"

subsection \<open>\<open>datetime.strptime\<close> on the four formats of the source\<close>

text \<open>
  \<open>strptime\<close> compiles a format into a regular expression, one alternation per directive,
  matches it at the start of the value, rejects a match that leaves text over, and builds a
  \<open>datetime\<close> from the fields, which rejects a year below 1, a day beyond the month's
  length and a second above 59. The directives and their alternations, in the order tried:
  \<^item> \<open>%Y\<close>: \<open>\d\d\d\d\<close>
  \<^item> \<open>%m\<close>: \<open>1[0-2]|0[1-9]|[1-9]\<close>
  \<^item> \<open>%d\<close>: \<open>3[0-1]|[1-2]\d|0[1-9]|[1-9]| [1-9]\<close>
  \<^item> \<open>%H\<close>: \<open>2[0-3]|[0-1]\d|\d\<close>
  \<^item> \<open>%M\<close>: \<open>[0-5]\d|\d\<close>
  \<^item> \<open>%S\<close>: \<open>6[0-1]|[0-5]\d|\d\<close>
  \<^item> a blank in the format: \<open>\s+\<close>; any other character: itself.
\<close>

datatype directive = DY | Dm | Dd | DH | DM | DS | DLit char | DBlank

record tm =
  tm_year :: nat
  tm_mon :: nat
  tm_mday :: nat
  tm_hour :: nat
  tm_min :: nat
  tm_sec :: nat

definition tm0 :: tm where
  "tm0 = \<lparr>tm_year = 1900, tm_mon = 1, tm_mday = 1, tm_hour = 0, tm_min = 0, tm_sec = 0\<rparr>"

text \<open>One alternative of two characters, or of one: the number read and the text left.\<close>

definition two :: "(char \<Rightarrow> bool) \<Rightarrow> (char \<Rightarrow> bool) \<Rightarrow> string \<Rightarrow> (nat \<times> string) list" where
  "two p q s =
     (case s of a # b # r \<Rightarrow> if p a \<and> q b then [(10 * digit_val a + digit_val b, r)] else []
      | _ \<Rightarrow> [])"

definition one :: "(char \<Rightarrow> bool) \<Rightarrow> string \<Rightarrow> (nat \<times> string) list" where
  "one p s = (case s of a # r \<Rightarrow> if p a then [(digit_val a, r)] else [] | _ \<Rightarrow> [])"

definition four_digits :: "string \<Rightarrow> (nat \<times> string) list" where
  "four_digits s =
     (case s of a # b # c # d # r \<Rightarrow>
        if is_digit a \<and> is_digit b \<and> is_digit c \<and> is_digit d
        then [(1000 * digit_val a + 100 * digit_val b + 10 * digit_val c + digit_val d, r)]
        else []
      | _ \<Rightarrow> [])"

text \<open>The ways a directive matches a prefix of the text, in the order the matcher tries them.\<close>

fun candidates :: "directive \<Rightarrow> string \<Rightarrow> (nat \<times> string) list" where
  "candidates DY s = four_digits s"
| "candidates Dm s =
     two (\<lambda>c. c = CHR ''1'') (in_range CHR ''0'' CHR ''2'') s
     @ two (\<lambda>c. c = CHR ''0'') (in_range CHR ''1'' CHR ''9'') s
     @ one (in_range CHR ''1'' CHR ''9'') s"
| "candidates Dd s =
     two (\<lambda>c. c = CHR ''3'') (in_range CHR ''0'' CHR ''1'') s
     @ two (in_range CHR ''1'' CHR ''2'') is_digit s
     @ two (\<lambda>c. c = CHR ''0'') (in_range CHR ''1'' CHR ''9'') s
     @ one (in_range CHR ''1'' CHR ''9'') s
     @ (case s of a # r \<Rightarrow> if a = CHR '' '' then one (in_range CHR ''1'' CHR ''9'') r else []
        | [] \<Rightarrow> [])"
| "candidates DH s =
     two (\<lambda>c. c = CHR ''2'') (in_range CHR ''0'' CHR ''3'') s
     @ two (in_range CHR ''0'' CHR ''1'') is_digit s
     @ one is_digit s"
| "candidates DM s = two (in_range CHR ''0'' CHR ''5'') is_digit s @ one is_digit s"
| "candidates DS s =
     two (\<lambda>c. c = CHR ''6'') (in_range CHR ''0'' CHR ''1'') s
     @ two (in_range CHR ''0'' CHR ''5'') is_digit s
     @ one is_digit s"
| "candidates (DLit c) s = (case s of a # r \<Rightarrow> if a = c then [(0, r)] else [] | [] \<Rightarrow> [])"
| "candidates DBlank s =
     map (\<lambda>k. (0, drop k s)) (rev [1 ..< Suc (length (takeWhile is_space s))])"

fun set_field :: "directive \<Rightarrow> nat \<Rightarrow> tm \<Rightarrow> tm" where
  "set_field DY n t = t\<lparr>tm_year := n\<rparr>"
| "set_field Dm n t = t\<lparr>tm_mon := n\<rparr>"
| "set_field Dd n t = t\<lparr>tm_mday := n\<rparr>"
| "set_field DH n t = t\<lparr>tm_hour := n\<rparr>"
| "set_field DM n t = t\<lparr>tm_min := n\<rparr>"
| "set_field DS n t = t\<lparr>tm_sec := n\<rparr>"
| "set_field (DLit c) n t = t"
| "set_field DBlank n t = t"

text \<open>All matches of a format at the start of the text, the matcher's first choice first.\<close>

fun run_format :: "directive list \<Rightarrow> tm \<Rightarrow> string \<Rightarrow> (tm \<times> string) list" where
  "run_format [] t s = [(t, s)]"
| "run_format (d # ds) t s =
     concat (map (\<lambda>(n, r). run_format ds (set_field d n t) r) (candidates d s))"

definition is_leap :: "nat \<Rightarrow> bool" where
  "is_leap y \<longleftrightarrow> y mod 4 = 0 \<and> (y mod 100 \<noteq> 0 \<or> y mod 400 = 0)"

definition days_in_month :: "nat \<Rightarrow> nat \<Rightarrow> nat" where
  "days_in_month y m =
     (if m = 2 then (if is_leap y then 29 else 28)
      else if m \<in> set [4, 6, 9, 11] then 30 else 31)"

text \<open>The checks of the \<open>datetime\<close> constructor.\<close>

definition valid_datetime :: "tm \<Rightarrow> bool" where
  "valid_datetime t \<longleftrightarrow>
     1 \<le> tm_year t \<and> tm_year t \<le> 9999 \<and> 1 \<le> tm_mon t \<and> tm_mon t \<le> 12 \<and>
     1 \<le> tm_mday t \<and> tm_mday t \<le> days_in_month (tm_year t) (tm_mon t) \<and>
     tm_hour t < 24 \<and> tm_min t < 60 \<and> tm_sec t < 60"

text \<open>\<open>strptime fmt v\<close> returns (\<open>True\<close>) or raises (\<open>False\<close>).\<close>

definition strptime :: "directive list \<Rightarrow> string \<Rightarrow> bool" where
  "strptime fmt v =
     (case run_format fmt tm0 v of [] \<Rightarrow> False
      | (t, rest) # _ \<Rightarrow> rest = [] \<and> valid_datetime t)"

text \<open>\<open>("%Y-%m-%d", "%Y-%m-%d %H:%M:%S", "%Y/%m/%d", "%d/%m/%Y")\<close>\<close>

definition date_formats :: "directive list list" where
  "date_formats =
     [[DY, DLit CHR ''-'', Dm, DLit CHR ''-'', Dd],
      [DY, DLit CHR ''-'', Dm, DLit CHR ''-'', Dd, DBlank,
       DH, DLit CHR '':'', DM, DLit CHR '':'', DS],
      [DY, DLit CHR ''/'', Dm, DLit CHR ''/'', Dd],
      [Dd, DLit CHR ''/'', Dm, DLit CHR ''/'', DY]]"

text \<open>The inner \<open>for fmt in ...\<close> loop: \<open>ok\<close> becomes true at the first format that parses.\<close>

definition match_date :: "string \<Rightarrow> bool" where
  "match_date v \<longleftrightarrow> list_ex (\<lambda>fmt. strptime fmt v) date_formats"

subsection \<open>\<open>infer_type\<close>\<close>

text \<open>
  The loop over the values with its three flags. An empty value is skipped; a flag that is
  still set is cleared when the value fails its pattern; the loop returns \<open>text\<close> as soon as
  all three are cleared.
\<close>

fun infer_loop :: "bool \<Rightarrow> bool \<Rightarrow> bool \<Rightarrow> string list \<Rightarrow> string" where
  "infer_loop ints nums dates [] =
     (if ints then ''bigint'' else if nums then ''numeric''
      else if dates then ''timestamp'' else ''text'')"
| "infer_loop ints nums dates (v # vs) =
     (if v = [] then infer_loop ints nums dates vs
      else
        let ints1 = (if ints \<and> \<not> match_int v then False else ints);
            nums1 = (if nums \<and> \<not> match_num v then False else nums);
            dates1 = (if dates \<and> \<not> match_date v then False else dates)
        in if \<not> (ints1 \<or> nums1 \<or> dates1) then ''text''
           else infer_loop ints1 nums1 dates1 vs)"

definition infer_type :: "string list \<Rightarrow> string" where
  "infer_type values = (if values = [] then ''text'' else infer_loop True True True values)"

text \<open>
  The classification in the specification's words: a class is chosen only when every
  non-empty sampled value matches it, the classes taken in the order integer, decimal,
  timestamp, and text otherwise.
\<close>

definition every_nonempty :: "(string \<Rightarrow> bool) \<Rightarrow> string list \<Rightarrow> bool" where
  "every_nonempty P values \<longleftrightarrow> (\<forall>v \<in> set values. v \<noteq> [] \<longrightarrow> P v)"

definition classify_spec :: "string list \<Rightarrow> string" where
  "classify_spec values =
     (if values = [] then ''text''
      else if every_nonempty match_int values then ''bigint''
      else if every_nonempty match_num values then ''numeric''
      else if every_nonempty match_date values then ''timestamp''
      else ''text'')"

section \<open>Phase 1: the token registry\<close>

subsection \<open>\<open>sanitize_token\<close>\<close>

text \<open>
  Every character outside \<open>[A-Za-z0-9_]\<close> becomes an underscore, the result is lower-cased,
  runs of underscores collapse to one, underscores are stripped from both ends, an empty
  result becomes \<open>table\<close>, and a leading digit gets the prefix \<open>t_\<close>. A code point
  beyond Latin-1 would be one underscore where this model sees several; the collapse makes
  the two agree.
\<close>

definition is_word :: "char \<Rightarrow> bool" where
  "is_word c \<longleftrightarrow>
     in_range CHR ''A'' CHR ''Z'' c \<or> in_range CHR ''a'' CHR ''z'' c \<or> is_digit c \<or> c = CHR ''_''"

definition to_lower :: "char \<Rightarrow> char" where
  "to_lower c = (if in_range CHR ''A'' CHR ''Z'' c then char_of (of_char c + (32 :: nat)) else c)"

fun collapse_underscores :: "string \<Rightarrow> string" where
  "collapse_underscores (a # b # r) =
     (if a = CHR ''_'' \<and> b = CHR ''_'' then collapse_underscores (b # r)
      else a # collapse_underscores (b # r))"
| "collapse_underscores s = s"

definition strip_underscores :: "string \<Rightarrow> string" where
  "strip_underscores s =
     rev (dropWhile (\<lambda>c. c = CHR ''_'') (rev (dropWhile (\<lambda>c. c = CHR ''_'') s)))"

definition sanitize_token :: "string \<Rightarrow> string" where
  "sanitize_token token =
     (let s0 = map to_lower (map (\<lambda>c. if is_word c then c else CHR ''_'') token);
          s1 = strip_underscores (collapse_underscores s0);
          s2 = (if s1 = [] then ''table'' else s1)
      in if is_digit (hd s2) then ''t_'' @ s2 else s2)"

subsection \<open>The \<open>types\<close> table\<close>

text \<open>
  \<open>types(token PRIMARY KEY, canonical UNIQUE NOT NULL, first_seen, overflow)\<close>: the rows in
  insertion order. An insert that repeats a token or a canonical name raises
  \<open>sqlite3.IntegrityError\<close> and leaves the table as it was.
\<close>

record type_row =
  t_token :: string
  t_canonical :: string
  t_first_seen :: string
  t_overflow :: nat

type_synonym types_table = "type_row list"

datatype error = IntegrityError

definition types_insert :: "type_row \<Rightarrow> types_table \<Rightarrow> error + types_table" where
  "types_insert r reg =
     (if list_ex (\<lambda>x. t_token x = t_token r \<or> t_canonical x = t_canonical r) reg
      then Inl IntegrityError else Inr (reg @ [r]))"

text \<open>
  \<open>ORDER BY canonical DESC LIMIT 1\<close>: the column is text, so the order is the byte-wise
  order of the names (a proper prefix is smaller).
\<close>

fun str_less :: "string \<Rightarrow> string \<Rightarrow> bool" where
  "str_less [] [] = False"
| "str_less [] (b # bs) = True"
| "str_less (a # as) [] = False"
| "str_less (a # as) (b # bs) =
     ((of_char a :: nat) < of_char b \<or> (a = b \<and> str_less as bs))"

fun max_canonical :: "types_table \<Rightarrow> string option" where
  "max_canonical [] = None"
| "max_canonical (r # rs) =
     (case max_canonical rs of None \<Rightarrow> Some (t_canonical r)
      | Some m \<Rightarrow> Some (if str_less m (t_canonical r) then t_canonical r else m))"

text \<open>
  \<open>re.search(r"(\d+)$", name)\<close>: the digits the name ends with; \<open>$\<close> also matches before
  a final newline. The empty result stands for no match.
\<close>

definition trailing_digits :: "string \<Rightarrow> string" where
  "trailing_digits s =
     (let s' = (if s \<noteq> [] \<and> last s = CHR 0x0A then butlast s else s)
      in rev (takeWhile is_digit (rev s')))"

text \<open>\<open>int\<close> of a string of digits.\<close>

definition dec_value :: "string \<Rightarrow> nat" where
  "dec_value ds = foldl (\<lambda>a c. 10 * a + digit_val c) 0 ds"

definition bucket_index :: "string \<Rightarrow> nat" where
  "bucket_index name = (let ds = trailing_digits name in if ds = [] then 0 else dec_value ds)"

text \<open>The index the next new token gets: the comment in the source reads
  \<open>find highest assigned index so far\<close>.\<close>

definition next_index :: "types_table \<Rightarrow> nat" where
  "next_index reg = (case max_canonical reg of None \<Rightarrow> 1 | Some name \<Rightarrow> bucket_index name + 1)"

text \<open>\<open>f"table_{next_idx:02d}"\<close>: decimal, zero-padded to two digits at least.\<close>

definition digit_char :: "nat \<Rightarrow> char" where
  "digit_char d = char_of (48 + d)"

fun dec_digits :: "nat \<Rightarrow> string" where
  "dec_digits n = (if n < 10 then [digit_char n] else dec_digits (n div 10) @ [digit_char (n mod 10)])"

declare dec_digits.simps [simp del]

definition zero_pad2 :: "string \<Rightarrow> string" where
  "zero_pad2 s = replicate (2 - length s) CHR ''0'' @ s"

definition canonical_name :: "nat \<Rightarrow> string" where
  "canonical_name idx = ''table_'' @ zero_pad2 (dec_digits idx)"

definition MAX_TYPES :: nat where
  "MAX_TYPES = 25"

subsection \<open>\<open>get_or_alloc_type\<close>\<close>

text \<open>
  The call takes the clock reading \<open>now\<close> it stores as \<open>first_seen\<close>, and returns the table
  with the canonical name, or the error the insert raised. The warning printed on overflow
  is output only and is left out.
\<close>

definition get_or_alloc_type ::
  "string \<Rightarrow> string \<Rightarrow> types_table \<Rightarrow> error + (types_table \<times> string)" where
  "get_or_alloc_type now raw reg =
     (let tok = sanitize_token raw in
      case find (\<lambda>r. t_token r = tok) reg of
        Some row \<Rightarrow> Inr (reg, t_canonical row)
      | None \<Rightarrow>
          let next_idx = next_index reg;
              canonical = canonical_name next_idx;
              overflow = (if next_idx > MAX_TYPES then 1 else 0)
          in (case types_insert
                     \<lparr>t_token = tok, t_canonical = canonical, t_first_seen = now,
                      t_overflow = overflow\<rparr> reg of
                Inl e \<Rightarrow> Inl e
              | Inr reg' \<Rightarrow> Inr (reg', canonical)))"

text \<open>
  A run makes one call per archive member. \<open>process_task\<close> catches what a call raises and
  marks the task failed, so the registry is then as it was and the run goes on.
\<close>

fun resolve_all :: "(string \<times> string) list \<Rightarrow> types_table \<Rightarrow> types_table" where
  "resolve_all [] reg = reg"
| "resolve_all ((now, raw) # rest) reg =
     (case get_or_alloc_type now raw reg of
        Inl e \<Rightarrow> resolve_all rest reg
      | Inr (reg', c) \<Rightarrow> resolve_all rest reg')"

text \<open>
  The tokens \<open>tok1\<close>, \<open>tok2\<close>, ..., resolved in this order at the clock reading \<open>t\<close>, and the
  registry with one row for each of the first \<open>n\<close> of them, bucket \<open>i\<close> for token \<open>i\<close>.
\<close>

definition numbered_token :: "nat \<Rightarrow> string" where
  "numbered_token i = ''tok'' @ dec_digits i"

definition numbered_ops :: "nat \<Rightarrow> (string \<times> string) list" where
  "numbered_ops n = map (\<lambda>i. (''t'', numbered_token i)) [1 ..< Suc n]"

definition alloc_row :: "nat \<Rightarrow> type_row" where
  "alloc_row i =
     \<lparr>t_token = numbered_token i, t_canonical = canonical_name i, t_first_seen = ''t'',
      t_overflow = (if i > MAX_TYPES then 1 else 0)\<rparr>"

definition alloc_rows :: "nat \<Rightarrow> types_table" where
  "alloc_rows n = map alloc_row [1 ..< Suc n]"

text \<open>What the overflow column must say about a row, given the index its name carries.\<close>

definition flag_ok :: "type_row \<Rightarrow> bool" where
  "flag_ok r \<longleftrightarrow>
     1 \<le> bucket_index (t_canonical r) \<and>
     t_overflow r = (if bucket_index (t_canonical r) \<le> 25 then 0 else 1)"

section \<open>Phase 1: the manifest and the completion check\<close>

record task =
  task_id :: string
  task_yyyy :: int
  task_mm :: int

text \<open>
  \<open>manifest(id, yyyy, mm, status, attempts, error, zip_path, zip_sha256, created_at,
  updated_at)\<close> with the primary key \<open>(id, yyyy, mm)\<close>: a map from the key to the rest of the
  row. The columns that \<open>set_status\<close> fills from an optional keyword are nullable.
\<close>

record manifest_row =
  m_status :: string
  m_attempts :: nat
  m_error :: "string option"
  m_zip_path :: "string option"
  m_zip_sha256 :: "string option"
  m_created_at :: string
  m_updated_at :: string

type_synonym manifest = "string \<times> int \<times> int \<Rightarrow> manifest_row option"

definition task_key :: "task \<Rightarrow> string \<times> int \<times> int" where
  "task_key t = (task_id t, task_yyyy t, task_mm t)"

text \<open>The upsert: a new row, or the old one with everything but \<open>created_at\<close> overwritten.\<close>

definition set_status ::
  "manifest \<Rightarrow> task \<Rightarrow> string \<Rightarrow> string option \<Rightarrow> string option \<Rightarrow> string option \<Rightarrow> string
   \<Rightarrow> manifest" where
  "set_status con t status err zip_path zip_sha256 now =
     (let attempts = (case con (task_key t) of Some row \<Rightarrow> m_attempts row | None \<Rightarrow> 0) + 1
      in con(task_key t \<mapsto>
           (case con (task_key t) of
              None \<Rightarrow>
                \<lparr>m_status = status, m_attempts = attempts, m_error = err,
                 m_zip_path = zip_path, m_zip_sha256 = zip_sha256,
                 m_created_at = now, m_updated_at = now\<rparr>
            | Some row \<Rightarrow>
                row\<lparr>m_status := status, m_attempts := attempts, m_error := err,
                    m_zip_path := zip_path, m_zip_sha256 := zip_sha256,
                    m_updated_at := now\<rparr>)))"

text \<open>
  \<open>bool(row and row[0] == "ok" and row[1] and Path(row[1]).exists())\<close>: the storage is the
  predicate \<open>path_exists\<close>; a path that is \<open>NULL\<close> or empty is falsy.
\<close>

definition already_ok :: "manifest \<Rightarrow> (string \<Rightarrow> bool) \<Rightarrow> task \<Rightarrow> bool" where
  "already_ok con path_exists t =
     (case con (task_key t) of
        None \<Rightarrow> False
      | Some row \<Rightarrow>
          m_status row = ''ok'' \<and>
          (case m_zip_path row of None \<Rightarrow> False | Some p \<Rightarrow> p \<noteq> [] \<and> path_exists p))"

text \<open>
  \<open>process_task\<close>: a task that is already complete is left alone; otherwise the pipeline
  (download, validation, normalisation and the manifest update inside the \<open>try\<close>) runs.
  The pipeline is the parameter \<open>acquire\<close> on a state \<open>'w\<close> that holds the manifest and the
  storage.
\<close>

definition process_task ::
  "('w \<Rightarrow> manifest) \<Rightarrow> ('w \<Rightarrow> string \<Rightarrow> bool) \<Rightarrow> ('w \<Rightarrow> task \<Rightarrow> 'w) \<Rightarrow> 'w \<Rightarrow> task \<Rightarrow> 'w" where
  "process_task con_of exists_in acquire w t =
     (if already_ok (con_of w) (exists_in w) t then w else acquire w t)"

text \<open>The completion check in the specification's words.\<close>

definition is_complete_spec :: "manifest \<Rightarrow> (string \<Rightarrow> bool) \<Rightarrow> task \<Rightarrow> bool" where
  "is_complete_spec con path_exists t \<longleftrightarrow>
     (\<exists>row p. con (task_key t) = Some row \<and> m_status row = ''ok'' \<and>
              m_zip_path row = Some p \<and> p \<noteq> [] \<and> path_exists p)"

section \<open>Phase 1: decoding in the normalizer\<close>

text \<open>
  The three \<open>bytes.decode\<close> calls are the codec library's: they are parameters here. A call
  returns the text or raises; \<open>except UnicodeDecodeError\<close> catches that one exception and lets
  any other through.
\<close>

datatype exn = UnicodeDecodeError | LookupError

definition try_except_decode :: "exn + 'text \<Rightarrow> exn + 'text \<Rightarrow> exn + 'text" where
  "try_except_decode body handler =
     (case body of Inr text \<Rightarrow> Inr text
      | Inl UnicodeDecodeError \<Rightarrow> handler
      | Inl e \<Rightarrow> Inl e)"

definition decode_text ::
  "('bytes \<Rightarrow> exn + 'text) \<Rightarrow> ('bytes \<Rightarrow> exn + 'text) \<Rightarrow> ('bytes \<Rightarrow> exn + 'text) \<Rightarrow> 'bytes
   \<Rightarrow> exn + 'text" where
  "decode_text utf8 cp1255 utf8_replace raw_bytes =
     try_except_decode (utf8 raw_bytes)
       (try_except_decode (cp1255 raw_bytes) (utf8_replace raw_bytes))"

text \<open>
  What the library promises of the three calls: a strict decoder raises nothing but
  \<open>UnicodeDecodeError\<close>, and decoding with \<open>errors="replace"\<close> always returns.
\<close>

definition codec_contract ::
  "('bytes \<Rightarrow> exn + 'text) \<Rightarrow> ('bytes \<Rightarrow> exn + 'text) \<Rightarrow> ('bytes \<Rightarrow> exn + 'text) \<Rightarrow> bool" where
  "codec_contract utf8 cp1255 utf8_replace \<longleftrightarrow>
     (\<forall>b. utf8 b \<noteq> Inl LookupError) \<and> (\<forall>b. cp1255 b \<noteq> Inl LookupError) \<and>
     (\<forall>b. \<exists>text. utf8_replace b = Inr text)"

text \<open>The fallback chain in the specification's words.\<close>

definition decode_spec ::
  "('bytes \<Rightarrow> exn + 'text) \<Rightarrow> ('bytes \<Rightarrow> exn + 'text) \<Rightarrow> ('bytes \<Rightarrow> exn + 'text) \<Rightarrow> 'bytes
   \<Rightarrow> exn + 'text" where
  "decode_spec utf8 cp1255 utf8_replace raw_bytes =
     (if \<exists>text. utf8 raw_bytes = Inr text then utf8 raw_bytes
      else if \<exists>text. cp1255 raw_bytes = Inr text then cp1255 raw_bytes
      else utf8_replace raw_bytes)"

text \<open>
  A small codec pair that keeps the contract, for running the step: bytes are numbers below
  256, text is a list of code points; the strict decoder takes ASCII only, the lenient one
  puts U+FFFD for every other byte.
\<close>

definition ascii_strict :: "nat list \<Rightarrow> exn + nat list" where
  "ascii_strict bs = (if list_all (\<lambda>b. b < 128) bs then Inr bs else Inl UnicodeDecodeError)"

definition ascii_replace :: "nat list \<Rightarrow> exn + nat list" where
  "ascii_replace bs = Inr (map (\<lambda>b. if b < 128 then b else 65533) bs)"


section \<open>Phase 2: the loader\<close>

subsection \<open>The store\<close>

text \<open>
  A staged record is the JSON object that \<open>json.dumps\<close> made of one row of the CSV: here
  the list of its keys, each with the text that \<open>rec ->> key\<close> yields (\<open>None\<close> for a JSON
  null). \<open>rec ? key\<close> asks whether the key is there.
\<close>

type_synonym json_object = "(string \<times> string option) list"

definition json_has :: "json_object \<Rightarrow> string \<Rightarrow> bool" where
  "json_has obj k \<longleftrightarrow> map_of obj k \<noteq> None"

definition json_text :: "json_object \<Rightarrow> string \<Rightarrow> string option" where
  "json_text obj k = (case map_of obj k of None \<Rightarrow> None | Some v \<Rightarrow> v)"

text \<open>\<open>lineage.files\<close>, \<open>staging.rows\<close> (without its serial \<open>row_id\<close>, which nothing reads), a
  canonical table \<open>public.{table}\<close> and \<open>lineage.schema_registry\<close>.\<close>

record file_record =
  f_file_id :: nat
  f_rel_path :: string
  f_table_name :: string
  f_entity_id :: string
  f_yyyy :: int
  f_mm :: int
  f_filename :: string
  f_file_sha256 :: string

record staged_row =
  s_file_id :: nat
  s_row_num :: nat
  s_table_name :: string
  s_entity_id :: string
  s_yyyy :: int
  s_mm :: int
  s_rec :: json_object

text \<open>
  A canonical row: the six lineage columns and, for every other column the insert names,
  the value \<open>(rec ->> key)::type\<close>, kept as the type and the text it is cast from
  (\<open>None\<close> for \<open>NULL\<close>). A column the insert does not name is \<open>NULL\<close> in the row.
\<close>

record canonical_row =
  c_src_file_id :: nat
  c_src_row_num :: nat
  c_batch_id :: string
  c_entity_id :: string
  c_yyyy :: int
  c_mm :: int
  c_cells :: "(string \<times> (string \<times> string) option) list"

text \<open>A table has its columns, each with the name of its type, and its rows.\<close>

record canonical_table =
  tb_columns :: "(string \<times> string) list"
  tb_rows :: "canonical_row list"

text \<open>The schema history has the primary key \<open>(table_name, column_name)\<close>; a row holds
  \<open>data_type\<close> and \<open>version\<close> (\<open>added_at\<close> is the store's clock and is left out).
  \<open>db_next_file_id\<close> is the sequence behind \<open>file_id bigserial\<close>.\<close>

record db =
  db_files :: "file_record list"
  db_next_file_id :: nat
  db_staging :: "staged_row list"
  db_tables :: "string \<Rightarrow> canonical_table option"
  db_schema_registry :: "string \<times> string \<Rightarrow> (string \<times> nat) option"

definition empty_db :: db where
  "empty_db =
     \<lparr>db_files = [], db_next_file_id = 1, db_staging = [], db_tables = (\<lambda>_. None),
      db_schema_registry = (\<lambda>_. None)\<rparr>"

text \<open>
  What a statement of the loader can raise. The first four are raised on the client's side,
  before anything is sent: \<open>KeyError\<close>, \<open>IndexError\<close> and \<open>ValueError\<close> by the SQL builder,
  \<open>PlaceholderError\<close> (an \<open>IndexError\<close> or a \<open>TypeError\<close>, by the character that follows the
  percent sign) by \<open>cursor.execute\<close> when it fills in the parameters. The others are the
  store's.
\<close>

datatype loader_error =
    KeyError string | IndexError | ValueError | PlaceholderError
  | UndefinedTable | UndefinedColumn | DuplicateColumn | DatatypeMismatch | DataError

definition column_names :: "db \<Rightarrow> string \<Rightarrow> string list" where
  "column_names d table_name =
     (case db_tables d table_name of None \<Rightarrow> [] | Some t \<Rightarrow> map fst (tb_columns t))"

definition table_rows :: "db \<Rightarrow> string \<Rightarrow> canonical_row list" where
  "table_rows d table_name =
     (case db_tables d table_name of None \<Rightarrow> [] | Some t \<Rightarrow> tb_rows t)"

definition staged_for :: "db \<Rightarrow> nat \<Rightarrow> staged_row list" where
  "staged_for d file_id = filter (\<lambda>r. s_file_id r = file_id) (db_staging d)"

subsection \<open>\<open>register_file\<close>\<close>

text \<open>
  \<open>INSERT ... ON CONFLICT (file_sha256) DO NOTHING RETURNING file_id\<close>: a new row takes the
  next value of the sequence. When the hash is known nothing is inserted and the id comes
  from the row that holds the hash; the sequence has given out a value all the same.
\<close>

definition register_file ::
  "db \<Rightarrow> string \<Rightarrow> string \<Rightarrow> string \<Rightarrow> int \<Rightarrow> int \<Rightarrow> string \<Rightarrow> string \<Rightarrow> nat \<times> db" where
  "register_file d rel_path table_name entity_id yyyy mm filename sha256 =
     (case find (\<lambda>f. f_file_sha256 f = sha256) (db_files d) of
        None \<Rightarrow>
          (db_next_file_id d,
           d\<lparr>db_files := db_files d @
                [\<lparr>f_file_id = db_next_file_id d, f_rel_path = rel_path,
                  f_table_name = table_name, f_entity_id = entity_id, f_yyyy = yyyy,
                  f_mm = mm, f_filename = filename, f_file_sha256 = sha256\<rparr>],
             db_next_file_id := Suc (db_next_file_id d)\<rparr>)
      | Some f \<Rightarrow> (f_file_id f, d\<lparr>db_next_file_id := Suc (db_next_file_id d)\<rparr>))"

subsection \<open>\<open>load_csv_to_staging\<close>\<close>

text \<open>
  The rows that \<open>csv.DictReader\<close> yields are numbered from 1, gathered in a buffer, and
  the buffer is written out whenever it holds 10000 rows and once more at the end.
\<close>

fun stage_loop ::
  "(nat \<Rightarrow> json_object \<Rightarrow> staged_row) \<Rightarrow> nat \<Rightarrow> json_object list \<Rightarrow> staged_row list \<Rightarrow> nat \<Rightarrow> db
   \<Rightarrow> nat \<times> db" where
  "stage_loop mk i [] rows count d =
     (if rows \<noteq> [] then (count + length rows, d\<lparr>db_staging := db_staging d @ rows\<rparr>)
      else (count, d))"
| "stage_loop mk i (obj # rest) rows count d =
     (let rows1 = rows @ [mk i obj]
      in if length rows1 \<ge> 10000
         then stage_loop mk (Suc i) rest [] (count + length rows1)
                (d\<lparr>db_staging := db_staging d @ rows1\<rparr>)
         else stage_loop mk (Suc i) rest rows1 count d)"

definition load_csv_to_staging ::
  "db \<Rightarrow> nat \<Rightarrow> string \<Rightarrow> string \<Rightarrow> int \<Rightarrow> int \<Rightarrow> json_object list \<Rightarrow> nat \<times> db" where
  "load_csv_to_staging d file_id table_name entity_id yyyy mm csv_rows =
     stage_loop
       (\<lambda>i obj. \<lparr>s_file_id = file_id, s_row_num = i, s_table_name = table_name,
                 s_entity_id = entity_id, s_yyyy = yyyy, s_mm = mm, s_rec = obj\<rparr>)
       1 csv_rows [] 0 d"

subsection \<open>The canonical table and its evolution\<close>

definition reserved :: "string list" where
  "reserved = [''src_file_id'', ''src_row_num'', ''batch_id'', ''entity_id'', ''yyyy'', ''mm'']"

text \<open>\<open>CREATE TABLE IF NOT EXISTS public.{table_name}\<close> with the six lineage columns.\<close>

definition ensure_canonical_table :: "db \<Rightarrow> string \<Rightarrow> db" where
  "ensure_canonical_table d table_name =
     (case db_tables d table_name of
        Some t \<Rightarrow> d
      | None \<Rightarrow>
          d\<lparr>db_tables := (db_tables d)(table_name \<mapsto>
             \<lparr>tb_columns =
                [(''src_file_id'', ''bigint''), (''src_row_num'', ''int''), (''batch_id'', ''uuid''),
                 (''entity_id'', ''text''), (''yyyy'', ''int''), (''mm'', ''int'')],
              tb_rows = []\<rparr>)\<rparr>)"

text \<open>\<open>SELECT DISTINCT key\<close> over the keys of the file's staged records. SQL fixes no order;
  the model takes the order \<open>remdups\<close> gives.\<close>

definition discover_keys_for_file :: "db \<Rightarrow> nat \<Rightarrow> string list" where
  "discover_keys_for_file d file_id =
     remdups (concat (map (\<lambda>r. map fst (s_rec r)) (staged_for d file_id)))"

text \<open>Per key: the texts of up to 500 staged records that have the key, the \<open>NULL\<close>s dropped,
  and the type \<open>infer_type\<close> gives them.\<close>

definition sample_types_for_keys :: "db \<Rightarrow> nat \<Rightarrow> string list \<Rightarrow> (string \<times> string) list" where
  "sample_types_for_keys d file_id keys =
     map (\<lambda>k. (k, infer_type
                    (List.map_filter (\<lambda>r. json_text (s_rec r) k)
                       (take 500 (filter (\<lambda>r. json_has (s_rec r) k) (staged_for d file_id))))))
         keys"

text \<open>\<open>types.get(key, "text")\<close>\<close>

definition type_for :: "(string \<times> string) list \<Rightarrow> string \<Rightarrow> string" where
  "type_for types k = (case map_of types k of None \<Rightarrow> ''text'' | Some dt \<Rightarrow> dt)"

text \<open>
  \<open>psycopg2.sql.SQL(template).format(*args, **kwargs)\<close>. The template is taken as
  \<open>string.Formatter.parse\<close> reads it: its literal pieces, each with the name of the
  replacement field that follows it (\<open>None\<close> when none does). The fields are filled from
  left to right. A field with the empty name, \<open>{}\<close>, takes the next positional argument; a
  field named by digits takes the positional argument of that number; a field with any other
  name takes the keyword argument of that name, and raises \<open>KeyError\<close> when there is none.
  \<open>autonum\<close> counts the automatic fields and is \<open>None\<close> once a field was numbered by hand.
\<close>

datatype composable = Identifier string | SQL string

definition prepend :: "'a list \<Rightarrow> loader_error + 'a list \<Rightarrow> loader_error + 'a list" where
  "prepend xs r = (case r of Inl e \<Rightarrow> Inl e | Inr ys \<Rightarrow> Inr (xs @ ys))"

fun sql_format ::
  "(string \<times> string option) list \<Rightarrow> composable list \<Rightarrow> (string \<Rightarrow> composable option) \<Rightarrow> nat option
   \<Rightarrow> loader_error + composable list" where
  "sql_format [] args kwargs autonum = Inr []"
| "sql_format ((pre, None) # rest) args kwargs autonum =
     prepend (if pre = [] then [] else [SQL pre]) (sql_format rest args kwargs autonum)"
| "sql_format ((pre, Some name) # rest) args kwargs autonum =
     (let lit = (if pre = [] then [] else [SQL pre])
      in if name \<noteq> [] \<and> list_all is_digit name then
           (if autonum \<noteq> None \<and> autonum \<noteq> Some 0 then Inl ValueError
            else if dec_value name < length args
            then prepend (lit @ [args ! dec_value name]) (sql_format rest args kwargs None)
            else Inl IndexError)
         else if name = [] then
           (case autonum of
              None \<Rightarrow> Inl ValueError
            | Some i \<Rightarrow>
                if i < length args
                then prepend (lit @ [args ! i]) (sql_format rest args kwargs (Some (Suc i)))
                else Inl IndexError)
         else
           (case kwargs name of
              None \<Rightarrow> Inl (KeyError name)
            | Some v \<Rightarrow> prepend (lit @ [v]) (sql_format rest args kwargs autonum)))"

text \<open>The template \<open>"ALTER TABLE public.{t} ADD COLUMN {c} {}"\<close>.\<close>

definition alter_template :: "(string \<times> string option) list" where
  "alter_template =
     [(''ALTER TABLE public.'', Some ''t''), ('' ADD COLUMN '', Some ''c''), ('' '', Some '''')]"

text \<open>What the store does with \<open>ALTER TABLE public.t ADD COLUMN c dt\<close>: it raises when the
  table is missing or has the column.\<close>

definition add_column :: "db \<Rightarrow> string \<Rightarrow> string \<Rightarrow> string \<Rightarrow> loader_error + db" where
  "add_column d table_name c dt =
     (case db_tables d table_name of
        None \<Rightarrow> Inl UndefinedTable
      | Some t \<Rightarrow>
          if c \<in> set (map fst (tb_columns t)) then Inl DuplicateColumn
          else Inr (d\<lparr>db_tables := (db_tables d)(table_name \<mapsto>
                        t\<lparr>tb_columns := tb_columns t @ [(c, dt)]\<rparr>)\<rparr>))"

text \<open>
  The column addition of \<open>ensure_columns\<close>: the statement is composed with the three
  arguments given by position and no keyword argument, and is executed once composed.
\<close>

definition alter_add_column :: "db \<Rightarrow> string \<Rightarrow> string \<Rightarrow> string \<Rightarrow> loader_error + db" where
  "alter_add_column d table_name c dt =
     (case sql_format alter_template [Identifier table_name, Identifier c, SQL dt]
             (\<lambda>_. None) (Some 0) of
        Inl e \<Rightarrow> Inl e
      | Inr statement \<Rightarrow> add_column d table_name c dt)"

text \<open>\<open>INSERT INTO lineage.schema_registry ... ON CONFLICT (table_name, column_name) DO UPDATE
  SET data_type = EXCLUDED.data_type\<close>\<close>

definition registry_upsert :: "db \<Rightarrow> string \<Rightarrow> string \<Rightarrow> string \<Rightarrow> nat \<Rightarrow> db" where
  "registry_upsert d table_name c dt version =
     d\<lparr>db_schema_registry := (db_schema_registry d)((table_name, c) \<mapsto>
         (case db_schema_registry d (table_name, c) of
            None \<Rightarrow> (dt, version)
          | Some (dt0, version0) \<Rightarrow> (dt, version0)))\<rparr>"

text \<open>The loop of \<open>ensure_columns\<close>; \<open>existing\<close> is read once, before the loop.\<close>

fun ensure_columns_loop ::
  "string list \<Rightarrow> nat \<Rightarrow> string \<Rightarrow> (string \<times> string) list \<Rightarrow> string list \<Rightarrow> db
   \<Rightarrow> loader_error + db" where
  "ensure_columns_loop existing version table_name sample_types [] d = Inr d"
| "ensure_columns_loop existing version table_name sample_types (key # keys) d =
     (if key \<in> set reserved then ensure_columns_loop existing version table_name sample_types keys d
      else if key \<notin> set existing then
        (let dt = type_for sample_types key
         in case alter_add_column d table_name key dt of
              Inl e \<Rightarrow> Inl e
            | Inr d1 \<Rightarrow>
                ensure_columns_loop existing version table_name sample_types keys
                  (registry_upsert d1 table_name key dt version))
      else ensure_columns_loop existing version table_name sample_types keys d)"

definition ensure_columns ::
  "db \<Rightarrow> string \<Rightarrow> string list \<Rightarrow> (string \<times> string) list \<Rightarrow> loader_error + db" where
  "ensure_columns d table_name keys sample_types =
     ensure_columns_loop (column_names d table_name) 1 table_name sample_types keys d"

subsection \<open>\<open>merge_file_into_canonical\<close>\<close>

text \<open>
  \<open>f"(r.rec ->> {extras.Json(c)})::{types.get(c,'text')}"\<close>: \<open>Json(c)\<close> is rendered as an SQL
  string literal around \<open>json.dumps(c)\<close>, the key in double quotes with the escapes of JSON.
  The store reads the literal back to that text, so the record is asked for the key with
  its quotes and not for the key.
\<close>

definition hex_digit :: "nat \<Rightarrow> char" where
  "hex_digit n = ''0123456789abcdef'' ! n"

definition json_escape :: "char \<Rightarrow> string" where
  "json_escape c =
     (if c = CHR 0x22 then [CHR 0x5C, CHR 0x22]
      else if c = CHR 0x5C then [CHR 0x5C, CHR 0x5C]
      else if c = CHR 0x0A then [CHR 0x5C, CHR ''n'']
      else if c = CHR 0x0D then [CHR 0x5C, CHR ''r'']
      else if c = CHR 0x09 then [CHR 0x5C, CHR ''t'']
      else if c = CHR 0x08 then [CHR 0x5C, CHR ''b'']
      else if c = CHR 0x0C then [CHR 0x5C, CHR ''f'']
      else if in_range CHR 0x20 CHR 0x7E c then [c]
      else [CHR 0x5C, CHR ''u'', CHR ''0'', CHR ''0'',
            hex_digit ((of_char c :: nat) div 16), hex_digit ((of_char c :: nat) mod 16)])"

definition json_dumps :: "string \<Rightarrow> string" where
  "json_dumps s = [CHR 0x22] @ concat (map json_escape s) @ [CHR 0x22]"

text \<open>
  What the statement text says of one column \<open>c\<close>: the column to fill
  (\<open>quote_ident(c, cur)\<close>, which names the column \<open>c\<close>), the key to read and the type to
  cast to.
\<close>

definition insert_targets ::
  "(string \<times> string) list \<Rightarrow> string list \<Rightarrow> (string \<times> string \<times> string) list" where
  "insert_targets types cols = map (\<lambda>c. (c, json_dumps c, type_for types c)) cols"

text \<open>
  \<open>cur.execute(query, (str(batch_id), file_id))\<close> fills the two parameters in at the
  placeholders of the query text, and to that end reads every percent sign of the text,
  also those that came in with a column name: two of them in a row stand for one percent
  sign, and one followed by anything else asks for a parameter that the call does not
  have, so that \<open>execute\<close> raises.
\<close>

fun read_percent :: "string \<Rightarrow> string option" where
  "read_percent [] = Some []"
| "read_percent [c] = (if c = CHR ''%'' then None else Some [c])"
| "read_percent (c # c' # s) =
     (if c = CHR ''%''
      then (if c' = CHR ''%'' then map_option ((#) CHR ''%'') (read_percent s) else None)
      else map_option ((#) c) (read_percent (c' # s)))"

definition read_target :: "string \<times> string \<times> string \<Rightarrow> (string \<times> string \<times> string) option" where
  "read_target tg =
     (case tg of (col, key, dt) \<Rightarrow>
        (case read_percent col of
           None \<Rightarrow> None
         | Some col' \<Rightarrow>
             (case read_percent key of None \<Rightarrow> None | Some key' \<Rightarrow> Some (col', key', dt))))"

text \<open>
  What the store decides, and the model takes as parameters: whether it has a cast that
  it applies when a value of type \<open>dt\<close> is assigned to a column of another type \<open>ct\<close>, and
  whether a text can be cast to \<open>dt\<close> and the result be kept in a column of type \<open>ct\<close>.
\<close>

record store_casts =
  pg_assign_cast :: "string \<Rightarrow> string \<Rightarrow> bool"
  pg_value_ok :: "string \<Rightarrow> string \<Rightarrow> string \<Rightarrow> bool"

text \<open>One row of the \<open>SELECT\<close>: the lineage of the staged row and the cell of each target.\<close>

definition project_row ::
  "string \<Rightarrow> (string \<times> string \<times> string) list \<Rightarrow> staged_row \<Rightarrow> canonical_row" where
  "project_row batch_id targets r =
     \<lparr>c_src_file_id = s_file_id r, c_src_row_num = s_row_num r, c_batch_id = batch_id,
      c_entity_id = s_entity_id r, c_yyyy = s_yyyy r, c_mm = s_mm r,
      c_cells = map (\<lambda>(col, key, dt). (col, map_option (\<lambda>v. (dt, v)) (json_text (s_rec r) key)))
                  targets\<rparr>"

definition type_fits :: "store_casts \<Rightarrow> canonical_table \<Rightarrow> string \<times> string \<times> string \<Rightarrow> bool" where
  "type_fits pg t tg =
     (case tg of (col, key, dt) \<Rightarrow>
        (case map_of (tb_columns t) col of
           None \<Rightarrow> False
         | Some ct \<Rightarrow> dt = ct \<or> pg_assign_cast pg dt ct))"

definition cells_ok :: "store_casts \<Rightarrow> canonical_table \<Rightarrow> canonical_row \<Rightarrow> bool" where
  "cells_ok pg t row =
     list_all
       (\<lambda>(col, cell).
          case cell of
            None \<Rightarrow> True
          | Some (dt, v) \<Rightarrow>
              (case map_of (tb_columns t) col of None \<Rightarrow> False | Some ct \<Rightarrow> pg_value_ok pg dt ct v))
       (c_cells row)"

text \<open>
  The \<open>INSERT ... SELECT\<close>, one canonical row per staged row of the file. The client fills
  in the parameters; the store then looks up the table and the named columns, checks that
  the type of each value can be assigned to its column, and casts and stores the values.
  Whatever raises, nothing is inserted.
\<close>

definition insert_select ::
  "store_casts \<Rightarrow> db \<Rightarrow> string \<Rightarrow> string \<Rightarrow> nat \<Rightarrow> (string \<times> string \<times> string) list
   \<Rightarrow> loader_error + db" where
  "insert_select pg d table_name batch_id file_id targets =
     (case those (map read_target targets) of
        None \<Rightarrow> Inl PlaceholderError
      | Some ts \<Rightarrow>
          (case db_tables d table_name of
             None \<Rightarrow> Inl UndefinedTable
           | Some t \<Rightarrow>
               if \<not> list_all (\<lambda>(col, key, dt). col \<in> set (map fst (tb_columns t))) ts
               then Inl UndefinedColumn
               else if \<not> list_all (type_fits pg t) ts then Inl DatatypeMismatch
               else
                 (let new_rows = map (project_row batch_id ts) (staged_for d file_id)
                  in if list_all (cells_ok pg t) new_rows
                     then Inr (d\<lparr>db_tables := (db_tables d)(table_name \<mapsto>
                                   t\<lparr>tb_rows := tb_rows t @ new_rows\<rparr>)\<rparr>)
                     else Inl DataError)))"

definition merge_file_into_canonical ::
  "store_casts \<Rightarrow> db \<Rightarrow> string \<Rightarrow> nat \<Rightarrow> string \<Rightarrow> loader_error + db" where
  "merge_file_into_canonical pg d table_name file_id batch_id =
     (let keys = discover_keys_for_file d file_id;
          types = sample_types_for_keys d file_id keys
      in case ensure_columns d table_name keys types of
           Inl e \<Rightarrow> Inl e
         | Inr d1 \<Rightarrow>
             (let cols = filter (\<lambda>k. k \<notin> set reserved) keys
              in if cols \<noteq> []
                 then insert_select pg d1 table_name batch_id file_id (insert_targets types cols)
                 else insert_select pg d1 table_name batch_id file_id []))"

subsection \<open>The driver \<open>run\<close>\<close>

text \<open>
  A normalized file as the loop of \<open>run\<close> has it once \<open>parse_path\<close> and \<open>file_sha256\<close>
  have returned: the parts of its path, its hash and the records \<open>csv.DictReader\<close> reads
  from it.
\<close>

record normalized_file =
  n_rel_path :: string
  n_table_name :: string
  n_entity_id :: string
  n_yyyy :: int
  n_mm :: int
  n_filename :: string
  n_sha256 :: string
  n_csv_rows :: "json_object list"

text \<open>The id the registration gives the file.\<close>

definition file_id_of :: "db \<Rightarrow> normalized_file \<Rightarrow> nat" where
  "file_id_of d f =
     fst (register_file d (n_rel_path f) (n_table_name f) (n_entity_id f) (n_yyyy f) (n_mm f)
            (n_filename f) (n_sha256 f))"

text \<open>
  One pass of the loop body over one file, up to its \<open>commit\<close>. The re-run guard: when the
  file id has staged rows, staging is skipped and the table is ensured and merged into.
\<close>

definition load_file ::
  "store_casts \<Rightarrow> string \<Rightarrow> normalized_file \<Rightarrow> db \<Rightarrow> loader_error + db" where
  "load_file pg batch_id f d =
     (let (file_id, d1) =
            register_file d (n_rel_path f) (n_table_name f) (n_entity_id f) (n_yyyy f) (n_mm f)
              (n_filename f) (n_sha256 f)
      in if list_ex (\<lambda>r. s_file_id r = file_id) (db_staging d1)
         then merge_file_into_canonical pg (ensure_canonical_table d1 (n_table_name f))
                (n_table_name f) file_id batch_id
         else
           (let (staged, d2) =
                  load_csv_to_staging d1 file_id (n_table_name f) (n_entity_id f) (n_yyyy f)
                    (n_mm f) (n_csv_rows f)
            in merge_file_into_canonical pg (ensure_canonical_table d2 (n_table_name f))
                 (n_table_name f) file_id batch_id))"

text \<open>
  A run of the loader over the files, under one batch id. Nothing catches what a file
  raises: it ends the run, and the transaction of the file is rolled back. The store is
  then as the last commit left it, but for the sequence of the file ids, which does not
  give back the value the registration of the file took.
\<close>

fun run :: "store_casts \<Rightarrow> string \<Rightarrow> normalized_file list \<Rightarrow> db \<Rightarrow> loader_error option \<times> db" where
  "run pg batch_id [] d = (None, d)"
| "run pg batch_id (f # fs) d =
     (case load_file pg batch_id f d of
        Inl e \<Rightarrow> (Some e, d\<lparr>db_next_file_id := Suc (db_next_file_id d)\<rparr>)
      | Inr d1 \<Rightarrow> run pg batch_id fs d1)"

text \<open>The rows that a merge of the file inserts: one per staged row of the file.\<close>

definition merged_rows :: "db \<Rightarrow> nat \<Rightarrow> string \<Rightarrow> canonical_row list" where
  "merged_rows d file_id batch_id =
     (let keys = discover_keys_for_file d file_id;
          types = sample_types_for_keys d file_id keys;
          cols = filter (\<lambda>k. k \<notin> set reserved) keys
      in case those (map read_target (insert_targets types cols)) of
           None \<Rightarrow> []
         | Some ts \<Rightarrow> map (project_row batch_id ts) (staged_for d file_id))"

subsection \<open>Example files\<close>

text \<open>A store that casts between no two types and keeps every value: the examples do not
  get as far as asking it.\<close>

definition plain_store :: store_casts where
  "plain_store = \<lparr>pg_assign_cast = (\<lambda>dt ct. False), pg_value_ok = (\<lambda>dt ct v. True)\<rparr>"

text \<open>
  A file as phase 1 normalizes it from a fabricated archive: bucket \<open>table_01\<close>, the header
  \<open>col_a, col_b, value\<close> and three rows.
\<close>

definition example_file :: normalized_file where
  "example_file =
     \<lparr>n_rel_path = ''data/normalized/table_01/00001/2020/03/00001_2020-03_token_07.csv'',
      n_table_name = ''table_01'', n_entity_id = ''00001'', n_yyyy = 2020, n_mm = 3,
      n_filename = ''00001_2020-03_token_07.csv'', n_sha256 = ''sha-alpha'',
      n_csv_rows =
        [[(''col_a'', Some ''A0''), (''col_b'', Some ''B0''), (''value'', Some ''57'')],
         [(''col_a'', Some ''A1''), (''col_b'', Some ''B1''), (''value'', Some ''12'')],
         [(''col_a'', Some ''A2''), (''col_b'', Some ''B2''), (''value'', Some ''80'')]]\<rparr>"

text \<open>
  A file of bucket \<open>table_02\<close> whose only column has the name of a lineage column, so that
  loading it asks for no new column. It is loaded into an empty store and then run over
  again.
\<close>

definition lineage_only_file :: normalized_file where
  "lineage_only_file =
     \<lparr>n_rel_path = ''data/normalized/table_02/00001/2020/03/00001_2020-03_beta.csv'',
      n_table_name = ''table_02'', n_entity_id = ''00001'', n_yyyy = 2020, n_mm = 3,
      n_filename = ''00001_2020-03_beta.csv'', n_sha256 = ''sha-beta'',
      n_csv_rows = [[(''entity_id'', Some ''00001'')]]\<rparr>"

definition bare_first_run :: db where
  "bare_first_run = snd (run plain_store ''batch-1'' [lineage_only_file] empty_db)"

definition bare_second_run :: db where
  "bare_second_run = snd (run plain_store ''batch-2'' [lineage_only_file] bare_first_run)"

section \<open>Phase 1: the fabricated archive\<close>

text \<open>
  \<open>fabricate_zip_bytes\<close> draws from \<open>random.Random\<close> seeded with the task's identity and
  writes each member with \<open>ZipFile.writestr(name, data)\<close>. Both are the library's. The
  generator enters as a parameter: a state \<open>'g\<close> with the three calls the source makes.
  \<open>writestr\<close>, given a name, stamps the member with the current local time; the clock
  enters as the reading at each call, and the archive is the list of its members, each with
  name, time stamp and data, which is what the bytes of \<open>buf.getvalue()\<close> encode.
\<close>

record 'g random_impl =
  r_seed :: "string \<Rightarrow> 'g"
  r_randint :: "int \<Rightarrow> int \<Rightarrow> 'g \<Rightarrow> int \<times> 'g"
  r_choice :: "string list \<Rightarrow> 'g \<Rightarrow> string \<times> 'g"

type_synonym date_time = "nat \<times> nat \<times> nat \<times> nat \<times> nat \<times> nat"

record zip_member =
  zm_filename :: string
  zm_date_time :: date_time
  zm_data :: string

text \<open>\<open>str\<close> of an integer, and the format \<open>02d\<close>.\<close>

definition str_int :: "int \<Rightarrow> string" where
  "str_int i = (if i < 0 then ''-'' @ dec_digits (nat (- i)) else dec_digits (nat i))"

definition fmt_02d :: "int \<Rightarrow> string" where
  "fmt_02d i = (if i < 0 then ''-'' @ dec_digits (nat (- i)) else zero_pad2 (dec_digits (nat i)))"

text \<open>\<open>[f"token_{i:02d}" for i in range(1, 36)]\<close>\<close>

definition demo_tokens :: "string list" where
  "demo_tokens = map (\<lambda>i. ''token_'' @ zero_pad2 (dec_digits i)) [1 ..< 36]"

definition crlf :: string where
  "crlf = [CHR 0x0D, CHR 0x0A]"

text \<open>The three data rows \<open>A{i},B{i},{rng.randint(1, 100)}\<close> that \<open>csv.writer\<close> writes.\<close>

fun data_rows :: "'g random_impl \<Rightarrow> nat list \<Rightarrow> 'g \<Rightarrow> string \<times> 'g" where
  "data_rows R [] g = ([], g)"
| "data_rows R (i # rest) g =
     (let (v, g1) = r_randint R 1 100 g;
          line = ''A'' @ dec_digits i @ '',B'' @ dec_digits i @ '','' @ str_int v @ crlf;
          (more, g2) = data_rows R rest g1
      in (line @ more, g2))"

text \<open>The loop \<open>for _ in range(count)\<close>: \<open>k\<close> counts the members written so far.\<close>

fun write_members ::
  "'g random_impl \<Rightarrow> (nat \<Rightarrow> date_time) \<Rightarrow> task \<Rightarrow> nat \<Rightarrow> nat \<Rightarrow> 'g \<Rightarrow> zip_member list" where
  "write_members R clock t k 0 g = []"
| "write_members R clock t k (Suc n) g =
     (let (tok, g1) = r_choice R demo_tokens g;
          name = task_id t @ ''_'' @ str_int (task_yyyy t) @ ''-'' @ fmt_02d (task_mm t)
                 @ ''_'' @ tok @ ''.csv'';
          (rows, g2) = data_rows R [0, 1, 2] g1
      in \<lparr>zm_filename = name, zm_date_time = clock k,
          zm_data = ''col_a,col_b,value'' @ crlf @ rows\<rparr>
         # write_members R clock t (Suc k) n g2)"

definition fabricate_zip_bytes ::
  "'g random_impl \<Rightarrow> (nat \<Rightarrow> date_time) \<Rightarrow> task \<Rightarrow> zip_member list" where
  "fabricate_zip_bytes R clock t =
     (let g0 = r_seed R (task_id t @ ''-'' @ str_int (task_yyyy t) @ ''-'' @ str_int (task_mm t));
          (count, g1) = r_randint R 1 3 g0
      in write_members R clock t 0 (nat count) g1)"

text \<open>
  A small generator in the library's place, for running the function: the state is a
  counter that starts at the length of the seed.
\<close>

definition counter_random :: "nat random_impl" where
  "counter_random =
     \<lparr>r_seed = length,
      r_randint = (\<lambda>a b g. (a + int g mod (b - a + 1), Suc g)),
      r_choice = (\<lambda>xs g. (xs ! (g mod length xs), Suc g))\<rparr>"

definition example_task :: task where
  "example_task = \<lparr>task_id = ''00001'', task_yyyy = 2020, task_mm = 3\<rparr>"

section \<open>Type inference: results\<close>

lemma every_nonempty_Nil: "every_nonempty P []"
  by (simp add: every_nonempty_def)

lemma every_nonempty_Cons:
  "every_nonempty P (v # vs) \<longleftrightarrow> (v = [] \<or> P v) \<and> every_nonempty P vs"
  by (auto simp: every_nonempty_def)

text \<open>What the loop returns, from any setting of its three flags.\<close>

lemma infer_loop_flags:
  "infer_loop ints nums dates vs =
     (if ints \<and> every_nonempty match_int vs then ''bigint''
      else if nums \<and> every_nonempty match_num vs then ''numeric''
      else if dates \<and> every_nonempty match_date vs then ''timestamp''
      else ''text'')"
proof (induction vs arbitrary: ints nums dates)
  case Nil
  show ?case by (simp add: every_nonempty_Nil)
next
  case (Cons v vs)
  show ?case
  proof (cases "v = []")
    case True
    then show ?thesis using Cons.IH [of ints nums dates]
      by (simp add: every_nonempty_Cons)
  next
    case False
    then show ?thesis
      by (cases ints; cases nums; cases dates; cases "match_int v"; cases "match_num v";
          cases "match_date v"; simp add: every_nonempty_Cons Cons.IH)
  qed
qed

text \<open>
  C6. Type inference follows the precedence integer, decimal, timestamp, text, and puts a
  field above text only when every non-empty sampled value matches the class: the loop of the
  source computes the classification of the specification on every list of values. The
  sample 1, 2, x is text, the sample 1, 2, 3 is bigint and the sample 1.5, 2 is numeric.
\<close>

theorem infer_type_precedence:
  "infer_type values = classify_spec values \<and>
   infer_type [''1'', ''2'', ''x''] = ''text'' \<and>
   infer_type [''1'', ''2'', ''3''] = ''bigint'' \<and>
   infer_type [''1.5'', ''2''] = ''numeric''"
proof -
  have "infer_type values = classify_spec values"
    by (simp add: infer_type_def classify_spec_def infer_loop_flags)
  moreover have "infer_type [''1'', ''2'', ''x''] = ''text''"
    by code_simp
  moreover have "infer_type [''1'', ''2'', ''3''] = ''bigint''"
    by code_simp
  moreover have "infer_type [''1.5'', ''2''] = ''numeric''"
    by code_simp
  ultimately show ?thesis by blast
qed

theorem infer_type_precedence_witness:
  "every_nonempty match_date [''2020-01-05'', [], ''1/2/2020''] \<and>
   \<not> every_nonempty match_num [''2020-01-05'', [], ''1/2/2020''] \<and>
   classify_spec [''2020-01-05'', [], ''1/2/2020''] = ''timestamp''"
proof -
  have run: "infer_type [''2020-01-05'', [], ''1/2/2020''] = ''timestamp''"
    by code_simp
  have d1: "match_date ''2020-01-05''" by code_simp
  have d2: "match_date ''1/2/2020''" by code_simp
  have n1: "\<not> match_num ''2020-01-05''" by code_simp
  from infer_type_precedence [of "[''2020-01-05'', [], ''1/2/2020'']"] run
  have "classify_spec [''2020-01-05'', [], ''1/2/2020''] = ''timestamp''"
    by simp
  with d1 d2 n1 show ?thesis
    by (simp add: every_nonempty_Cons every_nonempty_Nil)
qed

text \<open>
  C10. A non-empty list of values that are all the empty string is classified bigint: every
  value is skipped, no flag is cleared, and the integer flag is the first one read.
\<close>

theorem infer_type_all_empty:
  "values \<noteq> [] \<Longrightarrow> \<forall>v \<in> set values. v = [] \<Longrightarrow> infer_type values = ''bigint''"
  by (simp add: infer_type_def infer_loop_flags every_nonempty_def)

theorem infer_type_all_empty_witness:
  "[[], []] \<noteq> ([] :: string list) \<and> list_all (\<lambda>v. v = []) [[], [] :: string] \<and>
   infer_type [[], []] = ''bigint''"
proof -
  have h1: "[[], []] \<noteq> ([] :: string list)" by simp
  have h2: "\<forall>v \<in> set [[], [] :: string]. v = []" by simp
  from infer_type_all_empty [OF h1 h2] show ?thesis by simp
qed

section \<open>The token registry: results\<close>

lemma find_append_cases:
  "find P (xs @ ys) = (case find P xs of None \<Rightarrow> find P ys | Some x \<Rightarrow> Some x)"
  by (induction xs) auto

text \<open>A token that is in the table is answered from it, and the table stays as it is.\<close>

lemma get_or_alloc_found:
  "find (\<lambda>r. t_token r = sanitize_token raw) reg = Some row \<Longrightarrow>
   get_or_alloc_type now raw reg = Inr (reg, t_canonical row)"
  by (simp add: get_or_alloc_type_def)

text \<open>A token that is not in the table gets one new row, the last one.\<close>

lemma get_or_alloc_new:
  assumes "find (\<lambda>r. t_token r = sanitize_token raw) reg = None"
    and "get_or_alloc_type now raw reg = Inr (reg', c)"
  shows "c = canonical_name (next_index reg) \<and>
         reg' = reg @ [\<lparr>t_token = sanitize_token raw, t_canonical = c, t_first_seen = now,
                        t_overflow = (if next_index reg > MAX_TYPES then 1 else 0)\<rparr>]"
  using assms
  by (auto simp: get_or_alloc_type_def types_insert_def Let_def split: if_splits)

lemma get_or_alloc_mapped:
  assumes "get_or_alloc_type now raw reg = Inr (reg', c)"
  shows "\<exists>row. find (\<lambda>r. t_token r = sanitize_token raw) reg' = Some row \<and> t_canonical row = c"
proof (cases "find (\<lambda>r. t_token r = sanitize_token raw) reg")
  case None
  from get_or_alloc_new [OF None assms] show ?thesis
    using None by (auto simp: find_append_cases)
next
  case (Some row)
  with assms show ?thesis by (simp add: get_or_alloc_type_def)
qed

lemma get_or_alloc_extends:
  assumes "get_or_alloc_type now raw reg = Inr (reg', c)"
  shows "\<exists>ys. reg' = reg @ ys"
proof (cases "find (\<lambda>r. t_token r = sanitize_token raw) reg")
  case None
  from get_or_alloc_new [OF None assms] show ?thesis by blast
next
  case (Some row)
  with assms show ?thesis by (simp add: get_or_alloc_type_def)
qed

lemma resolve_all_extends: "\<exists>ys. resolve_all ops reg = reg @ ys"
proof (induction ops arbitrary: reg)
  case Nil
  show ?case by simp
next
  case (Cons op ops)
  obtain now raw where op: "op = (now, raw)" by (cases op)
  show ?case
  proof (cases "get_or_alloc_type now raw reg")
    case (Inl e)
    then show ?thesis using Cons.IH [of reg] op by simp
  next
    case (Inr res)
    obtain reg' c where res: "res = (reg', c)" by (cases res)
    from Inr res get_or_alloc_extends obtain ys where "reg' = reg @ ys" by blast
    moreover from Cons.IH [of reg'] obtain zs where "resolve_all ops reg' = reg' @ zs" by blast
    ultimately show ?thesis using Inr res op by simp
  qed
qed

text \<open>
  C7. From any registry and for any raw token: once a resolution has returned a bucket, a
  later resolution of a raw token with the same sanitized form, after any further
  resolutions in this run or a later one, returns the same bucket and leaves the registry
  as it finds it.
\<close>

theorem resolve_idempotent:
  assumes first: "get_or_alloc_type now1 raw1 reg = Inr (reg1, c)"
    and same: "sanitize_token raw2 = sanitize_token raw1"
  shows "get_or_alloc_type now2 raw2 (resolve_all ops reg1) = Inr (resolve_all ops reg1, c)"
proof -
  from get_or_alloc_mapped [OF first] obtain row
    where row: "find (\<lambda>r. t_token r = sanitize_token raw1) reg1 = Some row" "t_canonical row = c"
    by blast
  obtain ys where "resolve_all ops reg1 = reg1 @ ys"
    using resolve_all_extends by blast
  with row have "find (\<lambda>r. t_token r = sanitize_token raw2) (resolve_all ops reg1) = Some row"
    by (simp add: find_append_cases same)
  from get_or_alloc_found [OF this] row show ?thesis by simp
qed

theorem resolve_idempotent_witness:
  "get_or_alloc_type ''t1'' ''Alpha-Beta'' [] =
     Inr ([\<lparr>t_token = ''alpha_beta'', t_canonical = ''table_01'', t_first_seen = ''t1'',
            t_overflow = 0\<rparr>], ''table_01'') \<and>
   sanitize_token ''alpha__beta'' = sanitize_token ''Alpha-Beta'' \<and>
   get_or_alloc_type ''t3'' ''alpha__beta''
     (resolve_all [(''t2'', ''gamma'')]
        [\<lparr>t_token = ''alpha_beta'', t_canonical = ''table_01'', t_first_seen = ''t1'',
          t_overflow = 0\<rparr>]) =
     Inr (resolve_all [(''t2'', ''gamma'')]
        [\<lparr>t_token = ''alpha_beta'', t_canonical = ''table_01'', t_first_seen = ''t1'',
          t_overflow = 0\<rparr>], ''table_01'')"
proof -
  have h1: "get_or_alloc_type ''t1'' ''Alpha-Beta'' [] =
     Inr ([\<lparr>t_token = ''alpha_beta'', t_canonical = ''table_01'', t_first_seen = ''t1'',
            t_overflow = 0\<rparr>], ''table_01'')"
    by code_simp
  have h2: "sanitize_token ''alpha__beta'' = sanitize_token ''Alpha-Beta''"
    by code_simp
  from resolve_idempotent [OF h1 h2] h1 h2 show ?thesis by blast
qed

subsection \<open>Bucket names and their indices\<close>

lemma is_digit_digit_char: "d < 10 \<Longrightarrow> is_digit (digit_char d)"
  by (simp add: is_digit_def in_range_def digit_char_def)

lemma is_digit_zero: "is_digit CHR ''0''"
  by (simp add: is_digit_def in_range_def)

lemma digit_val_digit_char: "d < 10 \<Longrightarrow> digit_val (digit_char d) = d"
  by (simp add: digit_val_def digit_char_def)

lemma dec_digits_all: "list_all is_digit (dec_digits n) \<and> dec_digits n \<noteq> []"
proof (induction n rule: dec_digits.induct)
  case (1 n)
  show ?case
  proof (cases "n < 10")
    case True
    then show ?thesis by (simp add: dec_digits.simps [of n] is_digit_digit_char)
  next
    case False
    with 1 show ?thesis by (simp add: dec_digits.simps [of n] is_digit_digit_char)
  qed
qed

lemma dec_value_snoc: "dec_value (ds @ [c]) = 10 * dec_value ds + digit_val c"
  by (simp add: dec_value_def)

lemma dec_value_dec_digits: "dec_value (dec_digits n) = n"
proof (induction n rule: dec_digits.induct)
  case (1 n)
  show ?case
  proof (cases "n < 10")
    case True
    then show ?thesis
      by (simp add: dec_digits.simps [of n] dec_value_def digit_val_digit_char)
  next
    case False
    with 1 show ?thesis
      by (simp add: dec_digits.simps [of n] dec_value_snoc digit_val_digit_char)
  qed
qed

lemma dec_value_zeros: "foldl (\<lambda>a c. 10 * a + digit_val c) 0 (replicate k CHR ''0'') = 0"
  by (induction k) (simp_all add: digit_val_def)

lemma dec_value_zero_pad2: "dec_value (zero_pad2 ds) = dec_value ds"
  by (simp add: zero_pad2_def dec_value_def dec_value_zeros)

lemma zero_pad2_all:
  "list_all is_digit ds \<Longrightarrow> ds \<noteq> [] \<Longrightarrow> list_all is_digit (zero_pad2 ds) \<and> zero_pad2 ds \<noteq> []"
  by (auto simp: zero_pad2_def list_all_iff is_digit_zero)

lemma newline_not_digit: "is_digit c \<Longrightarrow> c \<noteq> CHR 0x0A"
  by (auto simp: is_digit_def in_range_def)

lemma trailing_digits_table:
  assumes "list_all is_digit ds" and "ds \<noteq> []"
  shows "trailing_digits (''table_'' @ ds) = ds"
proof -
  from assms have "is_digit (last ds)" by (simp add: list_all_iff)
  then have nl: "last (''table_'' @ ds) \<noteq> CHR 0x0A"
    using assms(2) newline_not_digit by simp
  have us: "\<not> is_digit CHR ''_''"
    by (simp add: is_digit_def in_range_def)
  have "takeWhile is_digit (rev ds @ rev ''table_'') = rev ds @ takeWhile is_digit (rev ''table_'')"
    using assms(1) by (intro takeWhile_append2) (simp add: list_all_iff)
  then have "takeWhile is_digit (rev ds @ rev ''table_'') = rev ds"
    using us by simp
  then show ?thesis using nl
    by (simp add: trailing_digits_def)
qed

text \<open>The index read back from a bucket name is the index the name was made from.\<close>

lemma bucket_index_canonical_name: "bucket_index (canonical_name n) = n"
proof -
  have d: "list_all is_digit (zero_pad2 (dec_digits n)) \<and> zero_pad2 (dec_digits n) \<noteq> []"
    using dec_digits_all [of n] zero_pad2_all by blast
  then have "trailing_digits (canonical_name n) = zero_pad2 (dec_digits n)"
    unfolding canonical_name_def using trailing_digits_table by blast
  with d show ?thesis
    by (simp add: bucket_index_def dec_value_zero_pad2 dec_value_dec_digits)
qed

subsection \<open>The text order of bucket names\<close>

lemma str_less_trichotomy: "str_less a b \<or> a = b \<or> str_less b a"
proof (induction a b rule: str_less.induct)
  case (4 a as b bs)
  have "(of_char a :: nat) = of_char b \<longleftrightarrow> a = b" by simp
  with 4 show ?case by (cases "(of_char a :: nat)" "(of_char b :: nat)" rule: linorder_cases) auto
qed simp_all

lemma str_less_prefix: "str_less (p @ a) (p @ b) = str_less a b"
  by (induction p) simp_all

lemma max_canonical_member:
  "max_canonical rs = Some m \<Longrightarrow> \<exists>r \<in> set rs. t_canonical r = m"
proof (induction rs arbitrary: m)
  case Nil
  then show ?case by simp
next
  case (Cons r rs)
  then show ?case by (cases "max_canonical rs") (auto split: if_splits)
qed

lemma max_canonical_None: "max_canonical rs = None \<longleftrightarrow> rs = []"
  by (cases rs) (auto split: option.splits)

text \<open>A name of the table that no name of the table is above is the one the query returns.\<close>

lemma max_canonical_is:
  "\<exists>r \<in> set rs. t_canonical r = m \<Longrightarrow> \<forall>r \<in> set rs. \<not> str_less m (t_canonical r) \<Longrightarrow>
   max_canonical rs = Some m"
proof (induction rs)
  case Nil
  then show ?case by simp
next
  case (Cons r rs)
  show ?case
  proof (cases "max_canonical rs")
    case None
    then have "rs = []" by (simp add: max_canonical_None)
    with Cons.prems show ?thesis by simp
  next
    case (Some m')
    from max_canonical_member [OF Some] obtain r' where r': "r' \<in> set rs" "t_canonical r' = m'"
      by blast
    with Cons.prems(2) have no: "\<not> str_less m m'" by auto
    show ?thesis
    proof (cases "\<exists>x \<in> set rs. t_canonical x = m")
      case True
      with Cons have "max_canonical rs = Some m" by auto
      with Cons.prems(2) show ?thesis by simp
    next
      case False
      with Cons.prems(1) have mr: "t_canonical r = m" by auto
      from str_less_trichotomy [of m m'] no have "m = m' \<or> str_less m' m" by blast
      with Some mr show ?thesis by auto
    qed
  qed
qed

lemma digit_char_less:
  "a < 10 \<Longrightarrow> b < 10 \<Longrightarrow> ((of_char (digit_char a) :: nat) < of_char (digit_char b)) = (a < b)"
  by (simp add: digit_char_def)

lemma digit_char_eq: "a < 10 \<Longrightarrow> b < 10 \<Longrightarrow> (digit_char a = digit_char b) = (a = b)"
  using digit_val_digit_char by metis

lemma canonical_name_two:
  assumes "i < 100"
  shows "canonical_name i = ''table_'' @ [digit_char (i div 10), digit_char (i mod 10)]"
proof (cases "i < 10")
  case True
  have z: "digit_char 0 = CHR ''0''" by code_simp
  from True show ?thesis
    by (simp add: canonical_name_def dec_digits.simps [of i] zero_pad2_def z)
next
  case False
  with assms have "i div 10 < 10" by simp
  with False show ?thesis
    by (simp add: canonical_name_def dec_digits.simps [of i] dec_digits.simps [of "i div 10"]
        zero_pad2_def)
qed

text \<open>Below 100 the text order of the names is the order of their indices.\<close>

lemma str_less_canonical:
  assumes "i < 100" and "j < 100"
  shows "str_less (canonical_name i) (canonical_name j) = (i < j)"
proof -
  have d: "i div 10 < 10" "i mod 10 < 10" "j div 10 < 10" "j mod 10 < 10"
    using assms by simp_all
  have "str_less (canonical_name i) (canonical_name j) =
      (i div 10 < j div 10 \<or> (i div 10 = j div 10 \<and> i mod 10 < j mod 10))"
    unfolding canonical_name_two [OF assms(1)] canonical_name_two [OF assms(2)] str_less_prefix
    using d by (simp add: digit_char_less digit_char_eq)
  also have "\<dots> = (i < j)"
  proof -
    define a b c e where "a = i div 10" and "b = i mod 10" and "c = j div 10" and "e = j mod 10"
    have i: "i = 10 * a + b" and j: "j = 10 * c + e"
      by (simp_all add: a_def b_def c_def e_def)
    have "b < 10" "e < 10" by (simp_all add: b_def e_def)
    then have "(a < c \<or> (a = c \<and> b < e)) = (10 * a + b < 10 * c + e)"
      by arith
    also have "\<dots> = (i < j)"
      by (simp only: i [symmetric] j [symmetric])
    finally show ?thesis
      by (simp only: a_def b_def c_def e_def)
  qed
  finally show ?thesis .
qed

lemma canonical_name_100: "canonical_name 100 = ''table_100''"
  by code_simp

lemma canonical_name_99: "canonical_name 99 = ''table_99''"
  by code_simp

lemma not_less_99_100: "\<not> str_less ''table_99'' ''table_100''"
  by simp

lemma set_alloc_rows: "set (alloc_rows n) = alloc_row ` {1..n}"
  by (auto simp: alloc_rows_def)

lemma alloc_rows_Suc: "alloc_rows (Suc n) = alloc_rows n @ [alloc_row (Suc n)]"
  by (simp add: alloc_rows_def)

lemma max_canonical_alloc_rows:
  assumes "1 \<le> n" and "n \<le> 99"
  shows "max_canonical (alloc_rows n) = Some (canonical_name n)"
proof (rule max_canonical_is)
  show "\<exists>r \<in> set (alloc_rows n). t_canonical r = canonical_name n"
    using assms by (auto simp: set_alloc_rows alloc_row_def)
  show "\<forall>r \<in> set (alloc_rows n). \<not> str_less (canonical_name n) (t_canonical r)"
    using assms by (auto simp: set_alloc_rows alloc_row_def str_less_canonical)
qed

lemma max_canonical_alloc_rows_100: "max_canonical (alloc_rows 100) = Some ''table_99''"
proof (rule max_canonical_is)
  have "alloc_row 99 \<in> set (alloc_rows 100)" by (simp add: set_alloc_rows)
  then show "\<exists>r \<in> set (alloc_rows 100). t_canonical r = ''table_99''"
    by (auto simp: alloc_row_def canonical_name_99 intro!: bexI [of _ "alloc_row 99"])
  show "\<forall>r \<in> set (alloc_rows 100). \<not> str_less ''table_99'' (t_canonical r)"
  proof
    fix r assume "r \<in> set (alloc_rows 100)"
    then obtain i where i: "1 \<le> i" "i \<le> 100" "r = alloc_row i"
      by (auto simp: set_alloc_rows)
    show "\<not> str_less ''table_99'' (t_canonical r)"
    proof (cases "i = 100")
      case True
      with i show ?thesis by (simp add: alloc_row_def canonical_name_100)
    next
      case False
      with i have "i < 100" by simp
      from str_less_canonical [of 99 i] this i(3) show ?thesis
        by (simp add: alloc_row_def canonical_name_99)
    qed
  qed
qed

lemma next_index_alloc_rows: "n \<le> 99 \<Longrightarrow> next_index (alloc_rows n) = Suc n"
proof (cases "n = 0")
  case True
  then show ?thesis by (simp add: next_index_def alloc_rows_def)
next
  case False
  assume "n \<le> 99"
  with False max_canonical_alloc_rows [of n] show ?thesis
    by (simp add: next_index_def bucket_index_canonical_name)
qed

lemma next_index_alloc_rows_100: "next_index (alloc_rows 100) = 100"
  using bucket_index_canonical_name [of 99]
  by (simp add: next_index_def max_canonical_alloc_rows_100 canonical_name_99)

subsection \<open>The numbered tokens\<close>

lemma collapse_no_underscore:
  "CHR ''_'' \<notin> set s \<Longrightarrow> collapse_underscores s = s"
  by (induction s rule: collapse_underscores.induct) auto

lemma strip_no_underscore: "CHR ''_'' \<notin> set s \<Longrightarrow> strip_underscores s = s"
proof -
  assume a: "CHR ''_'' \<notin> set s"
  have "\<And>xs. CHR ''_'' \<notin> set xs \<Longrightarrow> dropWhile (\<lambda>c. c = CHR ''_'') xs = xs"
    by (case_tac xs) auto
  with a show ?thesis by (simp add: strip_underscores_def)
qed

lemma digit_plain:
  assumes "is_digit c"
  shows "is_word c" and "to_lower c = c" and "c \<noteq> CHR ''_''"
  using assms by (auto simp: is_word_def to_lower_def is_digit_def in_range_def)

lemma sanitize_numbered_token: "sanitize_token (numbered_token i) = numbered_token i"
proof -
  let ?ds = "dec_digits i"
  from dec_digits_all [of i] have ds: "\<forall>c \<in> set ?ds. is_digit c"
    by (simp add: list_all_iff)
  have w: "is_word CHR ''t''" "is_word CHR ''o''" "is_word CHR ''k''"
    "to_lower CHR ''t'' = CHR ''t''" "to_lower CHR ''o'' = CHR ''o''"
    "to_lower CHR ''k'' = CHR ''k''" "\<not> is_digit CHR ''t''"
    by (simp_all add: is_word_def to_lower_def is_digit_def in_range_def)
  have m1: "map (\<lambda>c. if is_word c then c else CHR ''_'') ?ds = ?ds"
    using ds digit_plain(1) by (simp add: map_idI)
  have m2: "map to_lower ?ds = ?ds"
    using ds digit_plain(2) by (simp add: map_idI)
  have s0: "map to_lower (map (\<lambda>c. if is_word c then c else CHR ''_'') (numbered_token i)) =
      numbered_token i"
    unfolding numbered_token_def using w m1 m2 by simp
  have nu: "CHR ''_'' \<notin> set (numbered_token i)"
    using ds digit_plain(3) by (auto simp: numbered_token_def)
  show ?thesis
    unfolding sanitize_token_def s0 Let_def
    using w(7) by (simp add: collapse_no_underscore [OF nu] strip_no_underscore [OF nu])
      (simp add: numbered_token_def)
qed

lemma numbered_token_inj: "numbered_token i = numbered_token j \<Longrightarrow> i = j"
  using dec_value_dec_digits by (metis numbered_token_def same_append_eq)

lemma canonical_name_inj: "canonical_name i = canonical_name j \<Longrightarrow> i = j"
  using bucket_index_canonical_name by metis

lemma find_fresh_token:
  "n < k \<Longrightarrow> find (\<lambda>r. t_token r = sanitize_token (numbered_token k)) (alloc_rows n) = None"
  by (auto simp: find_None_iff set_alloc_rows alloc_row_def sanitize_numbered_token
      dest: numbered_token_inj)

text \<open>Up to the hundredth token, each new token gets the next bucket.\<close>

lemma alloc_step:
  assumes "n \<le> 99"
  shows "get_or_alloc_type ''t'' (numbered_token (Suc n)) (alloc_rows n) =
           Inr (alloc_rows (Suc n), canonical_name (Suc n))"
proof -
  have fresh: "find (\<lambda>r. t_token r = sanitize_token (numbered_token (Suc n))) (alloc_rows n) = None"
    by (rule find_fresh_token) simp
  have free: "\<not> list_ex (\<lambda>x. t_token x = numbered_token (Suc n) \<or>
      t_canonical x = canonical_name (Suc n)) (alloc_rows n)"
    by (auto simp: list_ex_iff set_alloc_rows alloc_row_def
        dest: numbered_token_inj canonical_name_inj)
  show ?thesis
    unfolding get_or_alloc_type_def Let_def fresh
    using free
    by (simp add: next_index_alloc_rows [OF assms] sanitize_numbered_token types_insert_def
        alloc_rows_Suc alloc_row_def)
qed

lemma resolve_all_append:
  "resolve_all (xs @ ys) reg = resolve_all ys (resolve_all xs reg)"
  by (induction xs arbitrary: reg) (auto split: sum.splits)

lemma numbered_ops_Suc: "numbered_ops (Suc n) = numbered_ops n @ [(''t'', numbered_token (Suc n))]"
  by (simp add: numbered_ops_def)

lemma resolve_numbered: "n \<le> 100 \<Longrightarrow> resolve_all (numbered_ops n) [] = alloc_rows n"
proof (induction n)
  case 0
  show ?case by (simp add: numbered_ops_def alloc_rows_def)
next
  case (Suc n)
  then have "n \<le> 99" by simp
  from alloc_step [OF this] Suc show ?case
    by (simp add: numbered_ops_Suc resolve_all_append)
qed

text \<open>The hundred-and-first token: the insert repeats \<open>table_100\<close> and raises.\<close>

lemma alloc_101_fails:
  "get_or_alloc_type ''t'' (numbered_token 101) (alloc_rows 100) = Inl IntegrityError"
proof -
  have fresh: "find (\<lambda>r. t_token r = sanitize_token (numbered_token 101)) (alloc_rows 100) = None"
    by (rule find_fresh_token) simp
  have "alloc_row 100 \<in> set (alloc_rows 100)" by (simp add: set_alloc_rows)
  then have taken: "list_ex (\<lambda>x. t_token x = numbered_token 101 \<or>
      t_canonical x = canonical_name 100) (alloc_rows 100)"
    unfolding list_ex_iff by (rule bexI [rotated]) (simp add: alloc_row_def)
  show ?thesis
    unfolding get_or_alloc_type_def Let_def fresh
    using taken
    by (simp add: next_index_alloc_rows_100 sanitize_numbered_token types_insert_def)
qed

lemma next_index_pos: "1 \<le> next_index reg"
  by (simp add: next_index_def split: option.splits)

subsection \<open>Overflow\<close>

lemma flag_ok_new_row:
  "flag_ok \<lparr>t_token = tok, t_canonical = canonical_name (next_index reg), t_first_seen = now,
            t_overflow = (if next_index reg > MAX_TYPES then 1 else 0)\<rparr>"
  using next_index_pos [of reg]
  by (auto simp: flag_ok_def bucket_index_canonical_name MAX_TYPES_def)

lemma get_or_alloc_flag_ok:
  assumes "get_or_alloc_type now raw reg = Inr (reg', c)" and "list_all flag_ok reg"
  shows "list_all flag_ok reg'"
proof (cases "find (\<lambda>r. t_token r = sanitize_token raw) reg")
  case None
  from get_or_alloc_new [OF None assms(1)] assms(2) show ?thesis
    using flag_ok_new_row [of "sanitize_token raw" reg now] by auto
next
  case (Some row)
  with assms show ?thesis by (simp add: get_or_alloc_type_def)
qed

lemma resolve_all_flag_ok: "list_all flag_ok reg \<Longrightarrow> list_all flag_ok (resolve_all ops reg)"
proof (induction ops arbitrary: reg)
  case Nil
  then show ?case by simp
next
  case (Cons op ops)
  obtain now raw where op: "op = (now, raw)" by (cases op)
  show ?case
  proof (cases "get_or_alloc_type now raw reg")
    case (Inl e)
    then show ?thesis using Cons op by simp
  next
    case (Inr res)
    obtain reg' c where res: "res = (reg', c)" by (cases res)
    from Inr res Cons.prems have "list_all flag_ok reg'"
      using get_or_alloc_flag_ok by blast
    then show ?thesis using Cons.IH [of reg'] Inr res op by simp
  qed
qed

text \<open>A new token whose next name is not taken is allocated: the call returns.\<close>

lemma get_or_alloc_free:
  assumes "find (\<lambda>r. t_token r = sanitize_token raw) reg = None"
    and "canonical_name (next_index reg) \<notin> set (map t_canonical reg)"
  shows "get_or_alloc_type now raw reg =
           Inr (reg @ [\<lparr>t_token = sanitize_token raw, t_canonical = canonical_name (next_index reg),
                        t_first_seen = now,
                        t_overflow = (if next_index reg > MAX_TYPES then 1 else 0)\<rparr>],
                canonical_name (next_index reg))"
proof -
  from assms(1) have "\<forall>x \<in> set reg. t_token x \<noteq> sanitize_token raw"
    by (simp add: find_None_iff)
  with assms(2) have "\<not> list_ex (\<lambda>x. t_token x = sanitize_token raw \<or>
      t_canonical x = canonical_name (next_index reg)) reg"
    by (force simp: list_ex_iff)
  with assms(1) show ?thesis
    by (simp add: get_or_alloc_type_def types_insert_def Let_def)
qed

text \<open>
  C5. With the soft cap at 25: in the registry that any sequence of resolutions builds from
  the empty one, every bucket whose index is between 1 and 25 has the overflow flag 0 and
  every bucket whose index is 26 or more has the flag 1. Processing continues past the cap:
  a resolution of a new token returns whenever the name of the next bucket is not taken,
  whatever the index, appending the row with its flag and giving back the name of the
  bucket; and whenever a resolution of a new token returns, that is what it has done. In
  particular the first hundred distinct tokens of a run are all allocated, in order, the
  twenty-sixth to the hundredth flagged.
\<close>

theorem overflow_flagging:
  "(\<forall>r \<in> set (resolve_all ops []).
      (bucket_index (t_canonical r) \<in> {1..25} \<longrightarrow> t_overflow r = 0) \<and>
      (26 \<le> bucket_index (t_canonical r) \<longrightarrow> t_overflow r = 1) \<and>
      1 \<le> bucket_index (t_canonical r)) \<and>
   (find (\<lambda>r. t_token r = sanitize_token raw) reg = None \<longrightarrow>
    get_or_alloc_type now raw reg = Inr (reg', c) \<longrightarrow>
      bucket_index c = next_index reg \<and>
      reg' = reg @ [\<lparr>t_token = sanitize_token raw, t_canonical = c, t_first_seen = now,
                     t_overflow = (if bucket_index c \<le> 25 then 0 else 1)\<rparr>]) \<and>
   (find (\<lambda>r. t_token r = sanitize_token raw) reg = None \<longrightarrow>
    canonical_name (next_index reg) \<notin> set (map t_canonical reg) \<longrightarrow>
      get_or_alloc_type now raw reg =
        Inr (reg @ [\<lparr>t_token = sanitize_token raw, t_canonical = canonical_name (next_index reg),
                     t_first_seen = now,
                     t_overflow = (if next_index reg \<le> 25 then 0 else 1)\<rparr>],
             canonical_name (next_index reg))) \<and>
   (n \<le> 100 \<longrightarrow>
      resolve_all (numbered_ops n) [] = alloc_rows n \<and>
      map t_overflow (alloc_rows n) = map (\<lambda>i. if i \<le> 25 then 0 else 1) [1 ..< Suc n])"
proof -
  have "list_all flag_ok (resolve_all ops [])"
    by (rule resolve_all_flag_ok) simp
  then have a: "\<forall>r \<in> set (resolve_all ops []).
      (bucket_index (t_canonical r) \<in> {1..25} \<longrightarrow> t_overflow r = 0) \<and>
      (26 \<le> bucket_index (t_canonical r) \<longrightarrow> t_overflow r = 1) \<and>
      1 \<le> bucket_index (t_canonical r)"
    by (auto simp: list_all_iff flag_ok_def)
  have b: "bucket_index c = next_index reg \<and>
      reg' = reg @ [\<lparr>t_token = sanitize_token raw, t_canonical = c, t_first_seen = now,
                     t_overflow = (if bucket_index c \<le> 25 then 0 else 1)\<rparr>]"
    if "find (\<lambda>r. t_token r = sanitize_token raw) reg = None"
      and "get_or_alloc_type now raw reg = Inr (reg', c)"
    using get_or_alloc_new [OF that]
    by (auto simp: bucket_index_canonical_name MAX_TYPES_def)
  have c: "get_or_alloc_type now raw reg =
        Inr (reg @ [\<lparr>t_token = sanitize_token raw, t_canonical = canonical_name (next_index reg),
                     t_first_seen = now,
                     t_overflow = (if next_index reg \<le> 25 then 0 else 1)\<rparr>],
             canonical_name (next_index reg))"
    if "find (\<lambda>r. t_token r = sanitize_token raw) reg = None"
      and "canonical_name (next_index reg) \<notin> set (map t_canonical reg)"
    using get_or_alloc_free [OF that, of now]
    by (simp add: MAX_TYPES_def not_le [symmetric])
  have d: "resolve_all (numbered_ops n) [] = alloc_rows n \<and>
      map t_overflow (alloc_rows n) = map (\<lambda>i. if i \<le> 25 then 0 else 1) [1 ..< Suc n]"
    if "n \<le> 100"
    using resolve_numbered [OF that]
    by (simp add: alloc_rows_def alloc_row_def MAX_TYPES_def not_le [symmetric] comp_def)
  from a b c d show ?thesis by blast
qed

theorem overflow_flagging_witness:
  "resolve_all [(''t'', ''alpha''), (''t'', ''beta'')] [] =
     [\<lparr>t_token = ''alpha'', t_canonical = ''table_01'', t_first_seen = ''t'', t_overflow = 0\<rparr>,
      \<lparr>t_token = ''beta'', t_canonical = ''table_02'', t_first_seen = ''t'', t_overflow = 0\<rparr>] \<and>
   list_all (\<lambda>r. 1 \<le> bucket_index (t_canonical r))
     (resolve_all [(''t'', ''alpha''), (''t'', ''beta'')] []) \<and>
   find (\<lambda>r. t_token r = sanitize_token ''tok27'') (alloc_rows 26) = None \<and>
   canonical_name (next_index (alloc_rows 26)) \<notin> set (map t_canonical (alloc_rows 26)) \<and>
   get_or_alloc_type ''t'' ''tok27'' (alloc_rows 26) =
     Inr (alloc_rows 26 @
            [\<lparr>t_token = ''tok27'', t_canonical = ''table_27'', t_first_seen = ''t'',
              t_overflow = 1\<rparr>], ''table_27'') \<and>
   bucket_index ''table_27'' = next_index (alloc_rows 26) \<and>
   next_index (alloc_rows 26) = 27 \<and>
   (100 :: nat) \<le> 100 \<and>
   resolve_all (numbered_ops 100) [] = alloc_rows 100 \<and>
   map t_overflow (alloc_rows 100) = map (\<lambda>i. if i \<le> 25 then 0 else 1) [1 ..< Suc 100]"
proof -
  have run: "resolve_all [(''t'', ''alpha''), (''t'', ''beta'')] [] =
     [\<lparr>t_token = ''alpha'', t_canonical = ''table_01'', t_first_seen = ''t'', t_overflow = 0\<rparr>,
      \<lparr>t_token = ''beta'', t_canonical = ''table_02'', t_first_seen = ''t'', t_overflow = 0\<rparr>]"
    by code_simp
  have tok: "numbered_token 27 = ''tok27''" and name: "canonical_name 27 = ''table_27''"
    by code_simp+
  have san: "sanitize_token ''tok27'' = ''tok27''"
    using sanitize_numbered_token [of 27] by (simp add: tok)
  have fresh: "find (\<lambda>r. t_token r = sanitize_token ''tok27'') (alloc_rows 26) = None"
    using find_fresh_token [of 26 27] by (simp add: tok)
  have idx: "next_index (alloc_rows 26) = 27"
    using next_index_alloc_rows [of 26] by simp
  have free: "canonical_name (next_index (alloc_rows 26)) \<notin> set (map t_canonical (alloc_rows 26))"
    unfolding idx
    by (auto simp: set_alloc_rows alloc_row_def dest!: canonical_name_inj)
  note inst = overflow_flagging [of "[(''t'', ''alpha''), (''t'', ''beta'')]" "''tok27''"
      "alloc_rows 26" "''t''"
      "alloc_rows 26 @
         [\<lparr>t_token = ''tok27'', t_canonical = ''table_27'', t_first_seen = ''t'',
           t_overflow = 1\<rparr>]" "''table_27''" 100]
  note i1 = inst [THEN conjunct1]
  note i2 = inst [THEN conjunct2, THEN conjunct1]
  note i3 = inst [THEN conjunct2, THEN conjunct2, THEN conjunct1]
  note i4 = inst [THEN conjunct2, THEN conjunct2, THEN conjunct2]
  from i1 have all: "list_all (\<lambda>r. 1 \<le> bucket_index (t_canonical r))
     (resolve_all [(''t'', ''alpha''), (''t'', ''beta'')] [])"
    unfolding list_all_iff by blast
  from mp [OF mp [OF i3 fresh] free]
  have step: "get_or_alloc_type ''t'' ''tok27'' (alloc_rows 26) =
     Inr (alloc_rows 26 @
            [\<lparr>t_token = ''tok27'', t_canonical = ''table_27'', t_first_seen = ''t'',
              t_overflow = 1\<rparr>], ''table_27'')"
    by (simp add: idx name san)
  from mp [OF mp [OF i2 fresh] step]
  have bi: "bucket_index ''table_27'' = next_index (alloc_rows 26)"
    by (rule conjunct1)
  have le: "(100 :: nat) \<le> 100" by simp
  note seq = mp [OF i4 le]
  from seq have s1: "resolve_all (numbered_ops 100) [] = alloc_rows 100"
    by (rule conjunct1)
  from seq have s2: "map t_overflow (alloc_rows 100) =
      map (\<lambda>i. if i \<le> 25 then 0 else 1) [1 ..< Suc 100]"
    by (rule conjunct2)
  from run all fresh free step bi idx le s1 s2 show ?thesis by (intro conjI)
qed

text \<open>
  C2, at the hundred-and-first distinct token. Resolving the tokens \<open>tok1\<close> to \<open>tok100\<close> from
  the empty registry gives them the buckets \<open>table_01\<close> to \<open>table_100\<close>. The registry's
  highest name in text order is then \<open>table_99\<close>, not \<open>table_100\<close>, so the next index is
  taken to be 100 again; the insert of a second \<open>table_100\<close> violates the unique constraint,
  the resolution of \<open>tok101\<close> raises, and no bucket 101 is allocated.
\<close>

theorem next_index_text_order:
  "resolve_all (numbered_ops 100) [] = alloc_rows 100 \<and>
   t_canonical (last (alloc_rows 100)) = ''table_100'' \<and>
   max_canonical (alloc_rows 100) = Some ''table_99'' \<and>
   next_index (alloc_rows 100) = 100 \<and>
   numbered_token 101 = ''tok101'' \<and>
   get_or_alloc_type ''t'' ''tok101'' (alloc_rows 100) = Inl IntegrityError \<and>
   resolve_all (numbered_ops 101) [] = alloc_rows 100"
proof -
  have a: "resolve_all (numbered_ops 100) [] = alloc_rows 100"
    by (rule resolve_numbered) simp
  have b: "t_canonical (last (alloc_rows 100)) = ''table_100''"
    using alloc_rows_Suc [of 99] by (simp add: alloc_row_def canonical_name_100)
  have t: "numbered_token 101 = ''tok101''"
    by code_simp
  have f: "get_or_alloc_type ''t'' ''tok101'' (alloc_rows 100) = Inl IntegrityError"
    using alloc_101_fails by (simp add: t)
  have "numbered_ops 101 = numbered_ops 100 @ [(''t'', ''tok101'')]"
    using numbered_ops_Suc [of 100] by (simp add: t)
  with a f have g: "resolve_all (numbered_ops 101) [] = alloc_rows 100"
    by (simp add: resolve_all_append)
  from a b max_canonical_alloc_rows_100 next_index_alloc_rows_100 t f g show ?thesis
    by (intro conjI)
qed

section \<open>The completion check: results\<close>

lemma already_ok_spec: "already_ok con path_exists t = is_complete_spec con path_exists t"
  by (auto simp: already_ok_def is_complete_spec_def split: option.splits)

lemma set_status_row:
  "\<exists>row. set_status con t status err zip_path sha now (task_key t) = Some row \<and>
         m_status row = status \<and> m_zip_path row = zip_path"
  by (simp add: set_status_def Let_def split: option.splits)

text \<open>
  C9. The completion check is true exactly when the manifest has a row for the task with
  status \<open>ok\<close> and a recorded zip path that is not empty and exists on storage; the row holds
  what the most recent \<open>set_status\<close> wrote. In every other case (no row, another status, no
  path, a path that is gone) it is false and \<open>process_task\<close> runs the acquisition again.
\<close>

theorem already_ok_iff:
  "(already_ok con path_exists t \<longleftrightarrow>
      (\<exists>row p. con (task_key t) = Some row \<and> m_status row = ''ok'' \<and>
               m_zip_path row = Some p \<and> p \<noteq> [] \<and> path_exists p)) \<and>
   (already_ok (set_status con t status err zip_path sha now) path_exists t \<longleftrightarrow>
      status = ''ok'' \<and> (\<exists>p. zip_path = Some p \<and> p \<noteq> [] \<and> path_exists p)) \<and>
   process_task con_of exists_in acquire w t =
     (if is_complete_spec (con_of w) (exists_in w) t then w else acquire w t)"
proof -
  have a: "already_ok con path_exists t \<longleftrightarrow>
      (\<exists>row p. con (task_key t) = Some row \<and> m_status row = ''ok'' \<and>
               m_zip_path row = Some p \<and> p \<noteq> [] \<and> path_exists p)"
    by (simp add: already_ok_spec is_complete_spec_def)
  obtain row where row: "set_status con t status err zip_path sha now (task_key t) = Some row"
      "m_status row = status" "m_zip_path row = zip_path"
    using set_status_row by blast
  then have b: "already_ok (set_status con t status err zip_path sha now) path_exists t \<longleftrightarrow>
      status = ''ok'' \<and> (\<exists>p. zip_path = Some p \<and> p \<noteq> [] \<and> path_exists p)"
    by (auto simp: already_ok_def split: option.splits)
  have c: "process_task con_of exists_in acquire w t =
     (if is_complete_spec (con_of w) (exists_in w) t then w else acquire w t)"
    by (simp add: process_task_def already_ok_spec)
  from a b c show ?thesis by blast
qed

section \<open>Decoding: results\<close>

text \<open>
  C8. Given the codec library's contract, the decoding step returns on every byte string:
  the UTF-8 decoding when that succeeds, else the cp1255 decoding when that succeeds, else
  the UTF-8 decoding with replacement. It never raises.
\<close>

theorem decode_text_total:
  assumes "codec_contract utf8 cp1255 utf8_replace"
  shows "decode_text utf8 cp1255 utf8_replace raw_bytes =
           decode_spec utf8 cp1255 utf8_replace raw_bytes \<and>
         (\<exists>text. decode_text utf8 cp1255 utf8_replace raw_bytes = Inr text)"
proof -
  from assms obtain decoded where r: "utf8_replace raw_bytes = Inr decoded"
    unfolding codec_contract_def by blast
  from assms have u: "utf8 raw_bytes \<noteq> Inl LookupError"
    and c: "cp1255 raw_bytes \<noteq> Inl LookupError"
    unfolding codec_contract_def by blast+
  show ?thesis
  proof (cases "utf8 raw_bytes")
    case (Inr a)
    then show ?thesis
      by (simp add: decode_text_def decode_spec_def try_except_decode_def)
  next
    case (Inl e)
    with u have e: "e = UnicodeDecodeError" by (cases e) auto
    show ?thesis
    proof (cases "cp1255 raw_bytes")
      case (Inr a)
      with Inl e show ?thesis
        by (simp add: decode_text_def decode_spec_def try_except_decode_def)
    next
      case inl2: (Inl e2)
      with c have "e2 = UnicodeDecodeError" by (cases e2) auto
      with Inl e inl2 r show ?thesis
        by (simp add: decode_text_def decode_spec_def try_except_decode_def)
    qed
  qed
qed

theorem decode_text_total_witness:
  "codec_contract ascii_strict ascii_strict ascii_replace \<and>
   decode_text ascii_strict ascii_strict ascii_replace [104, 105] = Inr [104, 105] \<and>
   decode_text ascii_strict ascii_strict ascii_replace [104, 255] = Inr [104, 65533]"
proof -
  have k: "codec_contract ascii_strict ascii_strict ascii_replace"
    by (simp add: codec_contract_def ascii_strict_def ascii_replace_def)
  have s1: "decode_spec ascii_strict ascii_strict ascii_replace [104, 105] = Inr [104, 105]"
    by (simp add: decode_spec_def ascii_strict_def ascii_replace_def)
  have s2: "decode_spec ascii_strict ascii_strict ascii_replace [104, 255] = Inr [104, 65533]"
    by (simp add: decode_spec_def ascii_strict_def ascii_replace_def)
  from decode_text_total [OF k, of "[104, 105]"] decode_text_total [OF k, of "[104, 255]"] k s1 s2
  show ?thesis by simp
qed

section \<open>The fabricated archive: results\<close>

text \<open>Names and data of the members do not depend on the clock.\<close>

lemma write_members_content:
  "map (\<lambda>m. (zm_filename m, zm_data m)) (write_members R clock1 t k1 n g) =
   map (\<lambda>m. (zm_filename m, zm_data m)) (write_members R clock2 t k2 n g)"
  by (induction n arbitrary: k1 k2 g) (simp_all add: split_beta Let_def)

lemma fabricate_content:
  "map (\<lambda>m. (zm_filename m, zm_data m)) (fabricate_zip_bytes R clock1 t) =
   map (\<lambda>m. (zm_filename m, zm_data m)) (fabricate_zip_bytes R clock2 t)"
  by (simp add: fabricate_zip_bytes_def split_beta Let_def
      write_members_content [of R clock1 t 0 _ _ clock2 0])

text \<open>The time stamps are the clock readings at the writes.\<close>

lemma write_members_times:
  "map zm_date_time (write_members R clock t k n g) = map clock [k ..< k + n]"
proof (induction n arbitrary: k g)
  case 0
  show ?case by simp
next
  case (Suc n)
  have "[k ..< k + Suc n] = k # [Suc k ..< Suc k + n]"
    by (simp add: upt_conv_Cons)
  with Suc show ?case by (simp add: split_beta Let_def)
qed

lemma write_members_length: "length (write_members R clock t k n g) = n"
  by (induction n arbitrary: k g) (simp_all add: split_beta Let_def)

lemma fabricate_times:
  "map zm_date_time (fabricate_zip_bytes R clock t) =
   map clock [0 ..< length (fabricate_zip_bytes R clock t)]"
  using write_members_times [of R clock t 0]
  by (simp add: fabricate_zip_bytes_def split_beta Let_def write_members_length)

lemma example_count:
  "length (fabricate_zip_bytes counter_random clock example_task) = 1"
proof -
  have "nat (fst (r_randint counter_random 1 3
      (r_seed counter_random
         (task_id example_task @ ''-'' @ str_int (task_yyyy example_task) @ ''-'' @
          str_int (task_mm example_task))))) = 1"
    by code_simp
  then show ?thesis
    by (simp add: fabricate_zip_bytes_def split_beta Let_def write_members_length)
qed

text \<open>
  C4, at the task \<open>00001\<close>, 2020, 3 fabricated at two clock readings four seconds apart: the
  two archives have the same member names and the same member data, but the members carry
  the time of their writing, so the archives differ. The fabricated content is a function of
  the task and of the clock, not of the task alone.
\<close>

theorem fabricated_archive_time_stamped:
  "map zm_filename (fabricate_zip_bytes counter_random (\<lambda>k. (2026, 11, 4, 12, 27, 4)) example_task)
     = map zm_filename
         (fabricate_zip_bytes counter_random (\<lambda>k. (2026, 11, 4, 12, 27, 8)) example_task) \<and>
   map zm_data (fabricate_zip_bytes counter_random (\<lambda>k. (2026, 11, 4, 12, 27, 4)) example_task)
     = map zm_data
         (fabricate_zip_bytes counter_random (\<lambda>k. (2026, 11, 4, 12, 27, 8)) example_task) \<and>
   map zm_date_time
     (fabricate_zip_bytes counter_random (\<lambda>k. (2026, 11, 4, 12, 27, 4)) example_task)
     = [(2026, 11, 4, 12, 27, 4)] \<and>
   map zm_date_time
     (fabricate_zip_bytes counter_random (\<lambda>k. (2026, 11, 4, 12, 27, 8)) example_task)
     = [(2026, 11, 4, 12, 27, 8)] \<and>
   fabricate_zip_bytes counter_random (\<lambda>k. (2026, 11, 4, 12, 27, 4)) example_task \<noteq>
   fabricate_zip_bytes counter_random (\<lambda>k. (2026, 11, 4, 12, 27, 8)) example_task"
proof -
  let ?c1 = "\<lambda>k :: nat. (2026, 11, 4, 12, 27, 4) :: date_time"
  let ?c2 = "\<lambda>k :: nat. (2026, 11, 4, 12, 27, 8) :: date_time"
  let ?a = "fabricate_zip_bytes counter_random ?c1 example_task"
  let ?b = "fabricate_zip_bytes counter_random ?c2 example_task"
  from fabricate_content [of counter_random ?c1 example_task ?c2]
  have "map fst (map (\<lambda>m. (zm_filename m, zm_data m)) ?a) =
        map fst (map (\<lambda>m. (zm_filename m, zm_data m)) ?b)"
    and "map snd (map (\<lambda>m. (zm_filename m, zm_data m)) ?a) =
        map snd (map (\<lambda>m. (zm_filename m, zm_data m)) ?b)"
    by simp_all
  then have n: "map zm_filename ?a = map zm_filename ?b"
    and d: "map zm_data ?a = map zm_data ?b"
    by (simp_all add: comp_def)
  have ta: "map zm_date_time ?a = [(2026, 11, 4, 12, 27, 4)]"
    using fabricate_times [of counter_random ?c1 example_task] by (simp add: example_count)
  have tb: "map zm_date_time ?b = [(2026, 11, 4, 12, 27, 8)]"
    using fabricate_times [of counter_random ?c2 example_task] by (simp add: example_count)
  have ne: "?a \<noteq> ?b"
  proof
    assume "?a = ?b"
    then have "map zm_date_time ?a = map zm_date_time ?b" by simp
    with ta tb show False by simp
  qed
  from n d ta tb ne show ?thesis by (intro conjI)
qed


section \<open>Schema evolution: results\<close>

text \<open>The first field of the template is named, and there is no keyword argument.\<close>

lemma alter_add_column_raises: "alter_add_column d table_name c dt = Inl (KeyError ''t'')"
  by (simp add: alter_add_column_def alter_template_def is_digit_def in_range_def)

text \<open>So the loop raises at the first key that asks for a column, and changes nothing when
  no key does.\<close>

lemma ensure_columns_loop_result:
  "ensure_columns_loop existing version table_name sample_types keys d =
     (if list_ex (\<lambda>key. key \<notin> set reserved \<and> key \<notin> set existing) keys
      then Inl (KeyError ''t'') else Inr d)"
  by (induction keys) (simp_all add: alter_add_column_raises)

lemma ensure_columns_result:
  "ensure_columns d table_name keys sample_types =
     (if list_ex (\<lambda>key. key \<notin> set reserved \<and> key \<notin> set (column_names d table_name)) keys
      then Inl (KeyError ''t'') else Inr d)"
  by (simp add: ensure_columns_def ensure_columns_loop_result)

lemma ensure_columns_Inr: "ensure_columns d table_name keys sample_types = Inr d1 \<Longrightarrow> d1 = d"
  by (simp add: ensure_columns_result split: if_splits)

lemma example_run:
  "run pg ''batch-1'' [example_file] empty_db =
     (Some (KeyError ''t''), empty_db\<lparr>db_next_file_id := 2\<rparr>)"
proof -
  have "load_file pg ''batch-1'' example_file empty_db = Inl (KeyError ''t'')"
    by (simp add: load_file_def merge_file_into_canonical_def ensure_columns_result
        discover_keys_for_file_def staged_for_def load_csv_to_staging_def register_file_def
        ensure_canonical_table_def column_names_def reserved_def empty_db_def example_file_def
        Let_def)
  then show ?thesis by (simp add: empty_db_def)
qed

text \<open>
  C3, at the first file that brings a column of its own. \<open>ensure_columns\<close> composes the
  \<open>ALTER TABLE\<close> statement before it executes it and before it writes the schema history.
  The composition gives the named fields \<open>{t}\<close> and \<open>{c}\<close> of the template positional
  arguments only, and raises \<open>KeyError('t')\<close>. So schema evolution either finds every key
  reserved or already a column and leaves the store as it is, or raises at the first key
  that asks for a column: no column is added and no row of the schema history is written.
  Loading the example file into the empty store ends the run with that error; the store has
  no table, no staged row and no history afterwards.
\<close>

theorem schema_evolution_raises:
  "alter_add_column d table_name key dt = Inl (KeyError ''t'') \<and>
   ensure_columns d table_name keys sample_types =
     (if list_ex (\<lambda>key. key \<notin> set reserved \<and> key \<notin> set (column_names d table_name)) keys
      then Inl (KeyError ''t'') else Inr d) \<and>
   ensure_columns (ensure_canonical_table empty_db ''table_01'') ''table_01''
       [''col_a'', ''col_b'', ''value'']
       [(''col_a'', ''text''), (''col_b'', ''text''), (''value'', ''bigint'')] =
     Inl (KeyError ''t'') \<and>
   run plain_store ''batch-1'' [example_file] empty_db =
     (Some (KeyError ''t''), empty_db\<lparr>db_next_file_id := 2\<rparr>) \<and>
   column_names (snd (run plain_store ''batch-1'' [example_file] empty_db)) ''table_01'' = [] \<and>
   db_schema_registry (snd (run plain_store ''batch-1'' [example_file] empty_db))
     (''table_01'', ''col_a'') = None \<and>
   db_staging (snd (run plain_store ''batch-1'' [example_file] empty_db)) = []"
proof -
  have a: "ensure_columns (ensure_canonical_table empty_db ''table_01'') ''table_01''
       [''col_a'', ''col_b'', ''value'']
       [(''col_a'', ''text''), (''col_b'', ''text''), (''value'', ''bigint'')] =
     Inl (KeyError ''t'')"
    by (simp add: ensure_columns_result ensure_canonical_table_def column_names_def
        reserved_def empty_db_def)
  have b: "column_names (snd (run plain_store ''batch-1'' [example_file] empty_db)) ''table_01''
      = []"
    by (simp only: example_run snd_conv) (simp add: column_names_def empty_db_def)
  have c: "db_schema_registry (snd (run plain_store ''batch-1'' [example_file] empty_db))
     (''table_01'', ''col_a'') = None"
    by (simp only: example_run snd_conv) (simp add: empty_db_def)
  have e: "db_staging (snd (run plain_store ''batch-1'' [example_file] empty_db)) = []"
    by (simp only: example_run snd_conv) (simp add: empty_db_def)
  from alter_add_column_raises ensure_columns_result a example_run b c e
  show ?thesis by (intro conjI)
qed

section \<open>The loader: results\<close>

lemma register_file_frame:
  "db_staging (snd (register_file d rel tn ent y m fn sha)) = db_staging d"
  "db_tables (snd (register_file d rel tn ent y m fn sha)) = db_tables d"
  "db_schema_registry (snd (register_file d rel tn ent y m fn sha)) = db_schema_registry d"
  by (simp_all add: register_file_def split: option.splits)

lemma staged_for_cong: "db_staging d1 = db_staging d \<Longrightarrow> staged_for d1 fid = staged_for d fid"
  by (simp add: staged_for_def)

lemma discover_keys_cong:
  "db_staging d1 = db_staging d \<Longrightarrow> discover_keys_for_file d1 fid = discover_keys_for_file d fid"
  by (simp add: discover_keys_for_file_def staged_for_def)

lemma sample_types_cong:
  "db_staging d1 = db_staging d \<Longrightarrow>
   sample_types_for_keys d1 fid keys = sample_types_for_keys d fid keys"
  by (simp add: sample_types_for_keys_def staged_for_def)

lemma ensure_canonical_table_frame:
  "db_staging (ensure_canonical_table d tn) = db_staging d"
  "table_rows (ensure_canonical_table d tn) t = table_rows d t"
  by (auto simp: ensure_canonical_table_def table_rows_def split: option.splits)

text \<open>An insert that returns has read its targets and appended one row per staged row.\<close>

lemma insert_select_Inr:
  assumes "insert_select pg d tn batch fid targets = Inr d'"
  shows "\<exists>ts. those (map read_target targets) = Some ts \<and>
           db_staging d' = db_staging d \<and>
           table_rows d' tn = table_rows d tn @ map (project_row batch ts) (staged_for d fid)"
proof (cases "those (map read_target targets)")
  case None
  with assms show ?thesis by (simp add: insert_select_def)
next
  case (Some ts)
  with assms show ?thesis
    by (auto simp: insert_select_def table_rows_def Let_def split: option.splits if_splits)
qed

lemma merge_Inr:
  assumes "merge_file_into_canonical pg d tn fid batch = Inr d'"
  shows "db_staging d' = db_staging d"
    and "table_rows d' tn = table_rows d tn @ merged_rows d fid batch"
    and "length (merged_rows d fid batch) = length (staged_for d fid)"
proof -
  let ?keys = "discover_keys_for_file d fid"
  let ?types = "sample_types_for_keys d fid ?keys"
  let ?cols = "filter (\<lambda>k. k \<notin> set reserved) ?keys"
  from assms obtain d1 where ec: "ensure_columns d tn ?keys ?types = Inr d1"
    by (cases "ensure_columns d tn ?keys ?types")
      (simp_all add: merge_file_into_canonical_def Let_def)
  from ensure_columns_Inr [OF ec] have d1: "d1 = d" .
  from assms ec d1
  have ins: "insert_select pg d tn batch fid (insert_targets ?types ?cols) = Inr d'"
    by (cases "?cols = []") (simp_all add: merge_file_into_canonical_def Let_def insert_targets_def)
  from insert_select_Inr [OF ins] obtain ts
    where ts: "those (map read_target (insert_targets ?types ?cols)) = Some ts"
      and st: "db_staging d' = db_staging d"
      and rows: "table_rows d' tn = table_rows d tn @ map (project_row batch ts) (staged_for d fid)"
    by (elim exE conjE)
  from ts have mr: "merged_rows d fid batch = map (project_row batch ts) (staged_for d fid)"
    by (simp add: merged_rows_def Let_def)
  from st show "db_staging d' = db_staging d" .
  from rows mr show "table_rows d' tn = table_rows d tn @ merged_rows d fid batch" by simp
  from mr show "length (merged_rows d fid batch) = length (staged_for d fid)" by simp
qed

lemma merged_rows_lineage:
  "list_all (\<lambda>r. c_src_file_id r = fid \<and> c_batch_id r = batch) (merged_rows d fid batch)"
  by (auto simp: merged_rows_def Let_def list_all_iff project_row_def staged_for_def
      split: option.splits)

text \<open>
  The key that the insert reads carries its quotes, so it is not the key of the column. On
  a record of the example file every cell the insert would fill is \<open>NULL\<close>.
\<close>

lemma json_escape_nonempty: "json_escape c \<noteq> []"
  by (simp add: json_escape_def)

lemma json_dumps_length: "length c + 2 \<le> length (json_dumps c)"
proof -
  have "length s \<le> length (concat (map json_escape s))" for s
  proof (induction s)
    case Nil
    show ?case by simp
  next
    case (Cons a s)
    have "1 \<le> length (json_escape a)"
      using json_escape_nonempty [of a] by (cases "json_escape a") simp_all
    with Cons show ?case by simp
  qed
  then show ?thesis by (simp add: json_dumps_def)
qed

lemma json_dumps_not_key: "json_dumps c \<noteq> c"
  using json_dumps_length [of c] by auto

lemma example_cells_null:
  "map (\<lambda>(col, key, dt).
          json_text [(''col_a'', Some ''A0''), (''col_b'', Some ''B0''), (''value'', Some ''57'')] key)
     (insert_targets types [''col_a'', ''col_b'', ''value'']) = [None, None, None]"
  by (simp add: insert_targets_def json_dumps_def json_escape_def in_range_def json_text_def)

text \<open>
  C1, amended. When the file id of a normalized file already has staged rows, a successful
  pass of the loader over the file stages nothing (the staged rows are as before), but it
  does merge again: the canonical table of the file gets, after the rows it had, one more row
  for every staged row of that file id, each with that file id and the batch id of this run.
\<close>

theorem rerun_skips_staging_but_merges:
  assumes staged: "list_ex (\<lambda>r. s_file_id r = file_id_of d f) (db_staging d)"
    and run: "load_file pg batch_id f d = Inr d'"
  shows "db_staging d' = db_staging d \<and>
         table_rows d' (n_table_name f) =
           table_rows d (n_table_name f) @ merged_rows d (file_id_of d f) batch_id \<and>
         length (merged_rows d (file_id_of d f) batch_id) = length (staged_for d (file_id_of d f)) \<and>
         staged_for d (file_id_of d f) \<noteq> [] \<and>
         list_all (\<lambda>r. c_src_file_id r = file_id_of d f \<and> c_batch_id r = batch_id)
           (merged_rows d (file_id_of d f) batch_id)"
proof -
  let ?reg = "register_file d (n_rel_path f) (n_table_name f) (n_entity_id f) (n_yyyy f) (n_mm f)
                (n_filename f) (n_sha256 f)"
  let ?fid = "file_id_of d f"
  let ?d1 = "snd ?reg"
  let ?tn = "n_table_name f"
  have st1: "db_staging ?d1 = db_staging d" by (rule register_file_frame)
  from staged have "load_file pg batch_id f d =
      merge_file_into_canonical pg (ensure_canonical_table ?d1 ?tn) ?tn ?fid batch_id"
    by (simp add: load_file_def file_id_of_def split_beta register_file_frame)
  with run have m: "merge_file_into_canonical pg (ensure_canonical_table ?d1 ?tn)
      ?tn ?fid batch_id = Inr d'"
    by simp
  let ?d2 = "ensure_canonical_table ?d1 ?tn"
  have st2: "db_staging ?d2 = db_staging d"
    using st1 by (simp add: ensure_canonical_table_frame)
  have rows1: "table_rows ?d1 ?tn = table_rows d ?tn"
    by (simp add: table_rows_def register_file_frame)
  have rows2: "table_rows ?d2 ?tn = table_rows d ?tn"
    by (simp only: ensure_canonical_table_frame rows1)
  have sf: "staged_for ?d2 ?fid = staged_for d ?fid"
    by (rule staged_for_cong [OF st2])
  have mr: "merged_rows ?d2 ?fid batch_id = merged_rows d ?fid batch_id"
    by (simp add: merged_rows_def sf discover_keys_cong [OF st2] sample_types_cong [OF st2]
        cong: option.case_cong)
  from merge_Inr [OF m] st2 rows2 mr sf
  have a: "db_staging d' = db_staging d"
    and b: "table_rows d' ?tn = table_rows d ?tn @ merged_rows d ?fid batch_id"
    and c: "length (merged_rows d ?fid batch_id) = length (staged_for d ?fid)"
    by simp_all
  from staged have e: "staged_for d ?fid \<noteq> []"
    by (auto simp: staged_for_def list_ex_iff filter_empty_conv)
  note g = merged_rows_lineage [of ?fid batch_id d]
  from a b c e g show ?thesis by (intro conjI)
qed

subsection \<open>The file without a column of its own, loaded twice\<close>

lemmas loader_defs =
  load_file_def register_file_def load_csv_to_staging_def
  ensure_canonical_table_def merge_file_into_canonical_def discover_keys_for_file_def
  staged_for_def sample_types_for_keys_def ensure_columns_result column_names_def reserved_def
  insert_select_def insert_targets_def project_row_def cells_ok_def type_fits_def
  plain_store_def json_text_def json_has_def Let_def List.map_filter_def
  table_rows_def file_id_of_def

lemma bare_first_run_ok: "fst (run plain_store ''batch-1'' [lineage_only_file] empty_db) = None"
  by (simp add: lineage_only_file_def empty_db_def loader_defs)

text \<open>The store after the first load.\<close>

lemma bare_first_run_eq:
  "bare_first_run =
     \<lparr>db_files =
        [\<lparr>f_file_id = 1,
          f_rel_path = ''data/normalized/table_02/00001/2020/03/00001_2020-03_beta.csv'',
          f_table_name = ''table_02'', f_entity_id = ''00001'', f_yyyy = 2020, f_mm = 3,
          f_filename = ''00001_2020-03_beta.csv'', f_file_sha256 = ''sha-beta''\<rparr>],
      db_next_file_id = 2,
      db_staging =
        [\<lparr>s_file_id = 1, s_row_num = 1, s_table_name = ''table_02'', s_entity_id = ''00001'',
          s_yyyy = 2020, s_mm = 3, s_rec = [(''entity_id'', Some ''00001'')]\<rparr>],
      db_tables = (\<lambda>_. None)(''table_02'' \<mapsto>
        \<lparr>tb_columns =
           [(''src_file_id'', ''bigint''), (''src_row_num'', ''int''), (''batch_id'', ''uuid''),
            (''entity_id'', ''text''), (''yyyy'', ''int''), (''mm'', ''int'')],
         tb_rows =
           [\<lparr>c_src_file_id = 1, c_src_row_num = 1, c_batch_id = ''batch-1'',
             c_entity_id = ''00001'', c_yyyy = 2020, c_mm = 3, c_cells = []\<rparr>]\<rparr>),
      db_schema_registry = (\<lambda>_. None)\<rparr>"
  by (simp add: bare_first_run_def lineage_only_file_def empty_db_def loader_defs)

lemma bare_second_run_ok:
  "fst (run plain_store ''batch-2'' [lineage_only_file] bare_first_run) = None"
  by (simp add: bare_first_run_eq lineage_only_file_def loader_defs)

lemma run_single_ok:
  "fst (run pg batch_id [f] d) = None \<Longrightarrow> load_file pg batch_id f d = Inr (snd (run pg batch_id [f] d))"
  by (cases "load_file pg batch_id f d") simp_all

lemma bare_merged_rows:
  "merged_rows bare_first_run 1 ''batch-2'' =
     [\<lparr>c_src_file_id = 1, c_src_row_num = 1, c_batch_id = ''batch-2'',
       c_entity_id = ''00001'', c_yyyy = 2020, c_mm = 3, c_cells = []\<rparr>]"
  by (simp add: merged_rows_def bare_first_run_eq loader_defs)

text \<open>
  C1 as stated fails. The file is loaded into the empty store: its file id 1 then has a
  staged row and one canonical row. The second run over the same file succeeds, stages
  nothing, and leaves two canonical rows for the file id, one per batch.
\<close>

theorem rerun_duplicates_rows:
  "fst (run plain_store ''batch-1'' [lineage_only_file] empty_db) = None \<and>
   file_id_of bare_first_run lineage_only_file = 1 \<and>
   list_ex (\<lambda>r. s_file_id r = 1) (db_staging bare_first_run) \<and>
   fst (run plain_store ''batch-2'' [lineage_only_file] bare_first_run) = None \<and>
   db_staging bare_second_run = db_staging bare_first_run \<and>
   map c_batch_id (filter (\<lambda>r. c_src_file_id r = 1) (table_rows bare_first_run ''table_02'')) =
     [''batch-1''] \<and>
   map c_batch_id (filter (\<lambda>r. c_src_file_id r = 1) (table_rows bare_second_run ''table_02'')) =
     [''batch-1'', ''batch-2''] \<and>
   table_rows bare_second_run ''table_02'' \<noteq> table_rows bare_first_run ''table_02''"
proof -
  have a: "file_id_of bare_first_run lineage_only_file = 1"
    by (simp add: bare_first_run_eq lineage_only_file_def loader_defs)
  have b: "list_ex (\<lambda>r. s_file_id r = 1) (db_staging bare_first_run)"
    by (simp add: bare_first_run_eq)
  have s: "db_staging bare_second_run = db_staging bare_first_run"
    by (simp add: bare_second_run_def bare_first_run_eq lineage_only_file_def loader_defs)
  have c: "map c_batch_id (filter (\<lambda>r. c_src_file_id r = 1)
      (table_rows bare_first_run ''table_02'')) = [''batch-1'']"
    by (simp add: bare_first_run_eq table_rows_def)
  have d: "map c_batch_id (filter (\<lambda>r. c_src_file_id r = 1)
      (table_rows bare_second_run ''table_02'')) = [''batch-1'', ''batch-2'']"
    by (simp add: bare_second_run_def bare_first_run_eq lineage_only_file_def loader_defs)
  from c d have e: "table_rows bare_second_run ''table_02'' \<noteq> table_rows bare_first_run ''table_02''"
    by auto
  from bare_first_run_ok a b bare_second_run_ok s c d e show ?thesis by (intro conjI)
qed

theorem rerun_skips_staging_but_merges_witness:
  "list_ex (\<lambda>r. s_file_id r = file_id_of bare_first_run lineage_only_file)
     (db_staging bare_first_run) \<and>
   load_file plain_store ''batch-2'' lineage_only_file bare_first_run = Inr bare_second_run \<and>
   db_staging bare_second_run = db_staging bare_first_run \<and>
   table_rows bare_second_run ''table_02'' =
     table_rows bare_first_run ''table_02'' @ merged_rows bare_first_run 1 ''batch-2'' \<and>
   merged_rows bare_first_run 1 ''batch-2'' =
     [\<lparr>c_src_file_id = 1, c_src_row_num = 1, c_batch_id = ''batch-2'',
       c_entity_id = ''00001'', c_yyyy = 2020, c_mm = 3, c_cells = []\<rparr>] \<and>
   length (merged_rows bare_first_run 1 ''batch-2'') = 1"
proof -
  have fid: "file_id_of bare_first_run lineage_only_file = 1"
    by (simp add: bare_first_run_eq lineage_only_file_def loader_defs)
  have staged: "list_ex (\<lambda>r. s_file_id r = file_id_of bare_first_run lineage_only_file)
      (db_staging bare_first_run)"
    unfolding fid by (simp add: bare_first_run_eq)
  have run: "load_file plain_store ''batch-2'' lineage_only_file bare_first_run =
      Inr bare_second_run"
    unfolding bare_second_run_def by (rule run_single_ok [OF bare_second_run_ok])
  have tn: "n_table_name lineage_only_file = ''table_02''"
    by (simp add: lineage_only_file_def)
  have len: "length (staged_for bare_first_run 1) = 1"
    by (simp add: bare_first_run_eq staged_for_def)
  note h = rerun_skips_staging_but_merges [OF staged run]
  note h1 = h [THEN conjunct1]
  note h2 = h [THEN conjunct2, THEN conjunct1]
  note h3 = h [THEN conjunct2, THEN conjunct2, THEN conjunct1]
  from h2 have r: "table_rows bare_second_run ''table_02'' =
      table_rows bare_first_run ''table_02'' @ merged_rows bare_first_run 1 ''batch-2''"
    by (simp only: fid tn)
  from h3 have l: "length (merged_rows bare_first_run 1 ''batch-2'') = 1"
    by (simp only: fid len)
  from staged run h1 r bare_merged_rows l show ?thesis by (intro conjI)
qed

end
